theory Spec2Isabelle
  imports Main "HOL-Library.AList"
begin

section \<open>PECS: sparse-set component pools and the entity registry\<close>

text \<open>
  A shallow embedding of \<^verbatim>\<open>PECS.hpp\<close>. Every member function becomes a HOL function
  that takes the object and returns the updated object together with the returned value.
  \<^verbatim>\<open>PECS_ASSERT\<close> is the default \<^verbatim>\<open>assert\<close>: a failing assertion ends the program, which
  the model shows as the result \<open>Inl AssertionFailed\<close>. A vector access out of range is
  undefined behaviour in C++ and is the result \<open>Inl UndefinedBehaviour\<close>.

  \<^verbatim>\<open>EntityID\<close> is \<^verbatim>\<open>size_t\<close> (taken as 64 bits wide): a \<open>nat\<close>, with the wrap-around
  of the two places where the code decrements or increments a \<^verbatim>\<open>size_t\<close> written out.
\<close>

datatype error = AssertionFailed | UndefinedBehaviour

subsection \<open>\<^verbatim>\<open>size_t\<close> arithmetic\<close>

definition SIZE_MAX :: nat where
  "SIZE_MAX = 2 ^ 64 - 1"

definition UINT_MAX :: nat where
  "UINT_MAX = 2 ^ 32 - 1"

definition size_t_dec :: "nat \<Rightarrow> nat" where
  \<comment> \<open>\<^verbatim>\<open>n - 1\<close> on a \<^verbatim>\<open>size_t\<close>: zero wraps to \<^verbatim>\<open>SIZE_MAX\<close>.\<close>
  "size_t_dec n = (if n = 0 then SIZE_MAX else n - 1)"

definition size_t_inc :: "nat \<Rightarrow> nat" where
  \<comment> \<open>\<^verbatim>\<open>n + 1\<close> on a \<^verbatim>\<open>size_t\<close>: \<^verbatim>\<open>SIZE_MAX\<close> wraps to zero.\<close>
  "size_t_inc n = (if n = SIZE_MAX then 0 else n + 1)"

subsection \<open>SparseSet\<close>

record 'a DenseSetEntry =
  entity :: nat
  data :: 'a

record 'a SparseSet =
  m_MaxEntities :: nat
  m_SparseSet :: "nat list"
  m_DenseSet :: "'a DenseSetEntry list"

definition sentinel :: "nat \<Rightarrow> nat" where
  \<comment> \<open>The value \<^verbatim>\<open>MaxEntities - 1\<close> that the sparse vector is filled with.\<close>
  "sentinel MaxEntities = size_t_dec MaxEntities"

definition SparseSet_new :: "nat \<Rightarrow> 'a SparseSet" where
  \<comment> \<open>The constructor: \<^verbatim>\<open>m_SparseSet.resize(MaxEntities, MaxEntities - 1)\<close>.\<close>
  "SparseSet_new MaxEntities =
     \<lparr>m_MaxEntities = MaxEntities,
      m_SparseSet = replicate MaxEntities (sentinel MaxEntities),
      m_DenseSet = []\<rparr>"

definition Has :: "'a SparseSet \<Rightarrow> nat \<Rightarrow> error + bool" where
  "Has s e =
     (if \<not> e < m_MaxEntities s then Inl AssertionFailed
      else if \<not> e < length (m_SparseSet s) then Inl UndefinedBehaviour
      else Inr (m_SparseSet s ! e \<noteq> sentinel (m_MaxEntities s)))"

definition Get :: "'a SparseSet \<Rightarrow> nat \<Rightarrow> error + 'a" where
  "Get s e =
     (if \<not> e < m_MaxEntities s then Inl AssertionFailed
      else case Has s e of
        Inl err \<Rightarrow> Inl err
      | Inr present \<Rightarrow>
          if \<not> present then Inl AssertionFailed
          else if \<not> m_SparseSet s ! e < length (m_DenseSet s) then Inl UndefinedBehaviour
          else Inr (data (m_DenseSet s ! (m_SparseSet s ! e))))"

definition Add :: "'a SparseSet \<Rightarrow> nat \<Rightarrow> 'a \<Rightarrow> error + ('a SparseSet \<times> 'a)" where
  \<comment> \<open>The third argument is the value \<^verbatim>\<open>T(args...)\<close> built from the constructor arguments.
      The result holds the pool after the call and the value the returned reference
      points to.\<close>
  "Add s e v =
     (if \<not> e < m_MaxEntities s then Inl AssertionFailed
      else case Has s e of
        Inl err \<Rightarrow> Inl err
      | Inr present \<Rightarrow>
          if present then
            (if \<not> m_SparseSet s ! e < length (m_DenseSet s) then Inl UndefinedBehaviour
             else Inr (s, data (m_DenseSet s ! (m_SparseSet s ! e))))
          else
            (let dense = m_DenseSet s @ [\<lparr>entity = e, data = v\<rparr>];
                 sparse = (m_SparseSet s)[e := size_t_dec (length dense)]
             in Inr (s\<lparr>m_SparseSet := sparse, m_DenseSet := dense\<rparr>, data (last dense))))"

definition Remove :: "'a SparseSet \<Rightarrow> nat \<Rightarrow> error + ('a SparseSet \<times> bool)" where
  \<comment> \<open>\<^verbatim>\<open>lastEntry\<close> is a reference into the dense vector, so \<^verbatim>\<open>lastEntry.entity\<close> is read
      from the vector after the assignment to slot \<^verbatim>\<open>index\<close>.\<close>
  "Remove s e =
     (if \<not> e < m_MaxEntities s then Inl AssertionFailed
      else case Has s e of
        Inl err \<Rightarrow> Inl err
      | Inr present \<Rightarrow>
          if \<not> present then Inr (s, False)
          else
            (let index = m_SparseSet s ! e;
                 lastIdx = size_t_dec (length (m_DenseSet s))
             in if \<not> lastIdx < length (m_DenseSet s) \<or> \<not> index < length (m_DenseSet s)
                then Inl UndefinedBehaviour
                else
                  (let dense1 = (m_DenseSet s)[index := m_DenseSet s ! lastIdx];
                       moved = entity (dense1 ! lastIdx)
                   in if \<not> moved < length (m_SparseSet s) then Inl UndefinedBehaviour
                      else
                        (let sparse1 = (m_SparseSet s)[moved := index];
                             dense2 = butlast dense1;
                             sparse2 = sparse1[e := sentinel (m_MaxEntities s)]
                         in Inr (s\<lparr>m_SparseSet := sparse2, m_DenseSet := dense2\<rparr>, True)))))"

subsection \<open>ECSInstance\<close>

text \<open>
  The pools of an instance are kept in \<^verbatim>\<open>std::unordered_map<std::type_index, ...>\<close>. The
  model keeps them as an association list with one entry per component type, in the order
  in which the pools were created; \<open>'k\<close> stands for \<^verbatim>\<open>std::type_index\<close> and \<open>'a\<close> for the
  component values of all types together.
\<close>

record ('k, 'a) ECSInstance =
  ecs_MaxEntities :: nat
  m_NextEntity :: nat
  m_FreeEntities :: "nat list"
  m_ComponentPools :: "('k \<times> 'a SparseSet) list"

definition ECSInstance_new :: "nat \<Rightarrow> ('k, 'a) ECSInstance" where
  "ECSInstance_new MaxEntities =
     \<lparr>ecs_MaxEntities = MaxEntities, m_NextEntity = 0, m_FreeEntities = [],
      m_ComponentPools = []\<rparr>"

definition TryGetPool :: "('k, 'a) ECSInstance \<Rightarrow> 'k \<Rightarrow> 'a SparseSet option" where
  "TryGetPool r T = map_of (m_ComponentPools r) T"

definition GetOrCreatePool ::
  "('k, 'a) ECSInstance \<Rightarrow> 'k \<Rightarrow> ('k, 'a) ECSInstance \<times> 'a SparseSet" where
  "GetOrCreatePool r T =
     (case map_of (m_ComponentPools r) T of
        Some pool \<Rightarrow> (r, pool)
      | None \<Rightarrow>
          (let wrapper = SparseSet_new (ecs_MaxEntities r)
           in (r\<lparr>m_ComponentPools := m_ComponentPools r @ [(T, wrapper)]\<rparr>, wrapper)))"

definition CreateEntity :: "('k, 'a) ECSInstance \<Rightarrow> error + (('k, 'a) ECSInstance \<times> nat)" where
  "CreateEntity r =
     (if m_FreeEntities r = [] then
        (if \<not> size_t_inc (m_NextEntity r) < ecs_MaxEntities r then Inl AssertionFailed
         else Inr (r\<lparr>m_NextEntity := size_t_inc (m_NextEntity r)\<rparr>, m_NextEntity r))
      else
        Inr (r\<lparr>m_FreeEntities := butlast (m_FreeEntities r)\<rparr>, last (m_FreeEntities r)))"

fun RemoveEntity_pools ::
  "('k \<times> 'a SparseSet) list \<Rightarrow> nat \<Rightarrow> error + ('k \<times> 'a SparseSet) list" where
  "RemoveEntity_pools [] e = Inr []"
| "RemoveEntity_pools ((T, pool) # pools) e =
     (case Remove pool e of
        Inl err \<Rightarrow> Inl err
      | Inr (pool', removed) \<Rightarrow>
          (case RemoveEntity_pools pools e of
             Inl err \<Rightarrow> Inl err
           | Inr pools' \<Rightarrow> Inr ((T, pool') # pools')))"

definition DeleteEntity :: "('k, 'a) ECSInstance \<Rightarrow> nat \<Rightarrow> error + ('k, 'a) ECSInstance" where
  "DeleteEntity r e =
     (if \<not> e < ecs_MaxEntities r then Inl AssertionFailed
      else case RemoveEntity_pools (m_ComponentPools r) e of
        Inl err \<Rightarrow> Inl err
      | Inr pools \<Rightarrow>
          Inr (r\<lparr>m_FreeEntities := m_FreeEntities r @ [e], m_ComponentPools := pools\<rparr>))"

definition AddComponent ::
  "('k, 'a) ECSInstance \<Rightarrow> 'k \<Rightarrow> nat \<Rightarrow> 'a \<Rightarrow> error + (('k, 'a) ECSInstance \<times> 'a)" where
  "AddComponent r T e v =
     (if \<not> e < ecs_MaxEntities r then Inl AssertionFailed
      else case GetOrCreatePool r T of
        (r1, pool) \<Rightarrow>
          (case Add pool e v of
             Inl err \<Rightarrow> Inl err
           | Inr (pool', x) \<Rightarrow>
               Inr (r1\<lparr>m_ComponentPools := AList.update T pool' (m_ComponentPools r1)\<rparr>, x)))"

definition GetComponent :: "('k, 'a) ECSInstance \<Rightarrow> 'k \<Rightarrow> nat \<Rightarrow> error + 'a" where
  "GetComponent r T e =
     (if \<not> e < ecs_MaxEntities r then Inl AssertionFailed
      else case TryGetPool r T of
        None \<Rightarrow> Inl AssertionFailed
      | Some pool \<Rightarrow>
          (case Has pool e of
             Inl err \<Rightarrow> Inl err
           | Inr present \<Rightarrow> if \<not> present then Inl AssertionFailed else Get pool e))"

definition RemoveComponent ::
  "('k, 'a) ECSInstance \<Rightarrow> 'k \<Rightarrow> nat \<Rightarrow> error + (('k, 'a) ECSInstance \<times> bool)" where
  "RemoveComponent r T e =
     (if \<not> e < ecs_MaxEntities r then Inl AssertionFailed
      else case TryGetPool r T of
        None \<Rightarrow> Inr (r, False)
      | Some pool \<Rightarrow>
          (case Remove pool e of
             Inl err \<Rightarrow> Inl err
           | Inr (pool', removed) \<Rightarrow>
               Inr (r\<lparr>m_ComponentPools := AList.update T pool' (m_ComponentPools r)\<rparr>, removed)))"

definition HasComponent :: "('k, 'a) ECSInstance \<Rightarrow> 'k \<Rightarrow> nat \<Rightarrow> error + bool" where
  "HasComponent r T e =
     (if \<not> e < ecs_MaxEntities r then Inl AssertionFailed
      else case TryGetPool r T of
        None \<Rightarrow> Inr False
      | Some pool \<Rightarrow> Has pool e)"

subsection \<open>Sequences of calls\<close>

text \<open>A caller of one pool makes a sequence of \<^verbatim>\<open>Add\<close> and \<^verbatim>\<open>Remove\<close> calls.\<close>

datatype 'a pool_call = AddCall nat 'a | RemoveCall nat

fun call_entity :: "'a pool_call \<Rightarrow> nat" where
  "call_entity (AddCall e v) = e"
| "call_entity (RemoveCall e) = e"

fun pool_calls :: "'a SparseSet \<Rightarrow> 'a pool_call list \<Rightarrow> error + 'a SparseSet" where
  "pool_calls s [] = Inr s"
| "pool_calls s (AddCall e v # cs) =
     (case Add s e v of Inl err \<Rightarrow> Inl err | Inr (s', x) \<Rightarrow> pool_calls s' cs)"
| "pool_calls s (RemoveCall e # cs) =
     (case Remove s e of Inl err \<Rightarrow> Inl err | Inr (s', removed) \<Rightarrow> pool_calls s' cs)"

text \<open>
  A caller of the registry's entity lifecycle makes a sequence of \<^verbatim>\<open>CreateEntity\<close> and
  \<^verbatim>\<open>DeleteEntity\<close> calls; the run returns the final registry and the IDs that the
  \<^verbatim>\<open>CreateEntity\<close> calls returned, in order.
\<close>

datatype entity_call = CreateCall | DeleteCall nat

fun entity_calls ::
  "('k, 'a) ECSInstance \<Rightarrow> entity_call list \<Rightarrow> error + (('k, 'a) ECSInstance \<times> nat list)" where
  "entity_calls r [] = Inr (r, [])"
| "entity_calls r (CreateCall # cs) =
     (case CreateEntity r of
        Inl err \<Rightarrow> Inl err
      | Inr (r', ident) \<Rightarrow>
          (case entity_calls r' cs of
             Inl err \<Rightarrow> Inl err
           | Inr (r'', idents) \<Rightarrow> Inr (r'', ident # idents)))"
| "entity_calls r (DeleteCall e # cs) =
     (case DeleteEntity r e of Inl err \<Rightarrow> Inl err | Inr r' \<Rightarrow> entity_calls r' cs)"

subsection \<open>The sparse/dense linking invariant\<close>

text \<open>
  The invariant of the data model: the sparse vector has one slot per entity ID; every
  slot that is not the sentinel indexes a dense entry of that entity; every dense entry
  carries an entity ID in range whose sparse slot indexes the entry.
\<close>

definition linked :: "'a SparseSet \<Rightarrow> bool" where
  "linked s \<longleftrightarrow>
     length (m_SparseSet s) = m_MaxEntities s \<and>
     (\<forall>e \<in> {0..<m_MaxEntities s}.
        m_SparseSet s ! e \<noteq> sentinel (m_MaxEntities s) \<longrightarrow>
          m_SparseSet s ! e < length (m_DenseSet s) \<and>
          entity (m_DenseSet s ! (m_SparseSet s ! e)) = e) \<and>
     (\<forall>i \<in> {0..<length (m_DenseSet s)}.
        entity (m_DenseSet s ! i) < m_MaxEntities s \<and>
        m_SparseSet s ! entity (m_DenseSet s ! i) = i)"

section \<open>Basic facts\<close>

lemma sentinel_pos: "0 < c \<Longrightarrow> sentinel c = c - 1"
  by (simp add: sentinel_def size_t_dec_def)

lemma Has_Inr_iff:
  "Has s e = Inr b \<longleftrightarrow>
     e < m_MaxEntities s \<and> e < length (m_SparseSet s) \<and>
     b = (m_SparseSet s ! e \<noteq> sentinel (m_MaxEntities s))"
  by (auto simp: Has_def)

lemma update_existing: "map_of al k = Some v \<Longrightarrow> AList.update k v al = al"
  by (induction al) auto

section \<open>Removing an absent entity\<close>

text \<open>
  Claim C8. \<^verbatim>\<open>Remove\<close> on an entity for which \<^verbatim>\<open>Has\<close> is false returns false and leaves
  the pool (sparse and dense vectors) as it was. \<^verbatim>\<open>RemoveComponent<T>\<close> returns false when
  no pool for \<open>T\<close> exists or when the entity is absent from it, and leaves the whole
  registry as it was; in particular it creates no pool.
\<close>

theorem Remove_absent_noop:
  "(Has s e = Inr False \<longrightarrow> Remove s e = Inr (s, False)) \<and>
   (e' < ecs_MaxEntities r \<and>
      (TryGetPool r T = None \<or> (\<exists>pool. TryGetPool r T = Some pool \<and> Has pool e' = Inr False))
    \<longrightarrow> RemoveComponent r T e' = Inr (r, False))"
proof (intro conjI impI)
  assume a: "Has s e = Inr False"
  then have "e < m_MaxEntities s" by (simp add: Has_Inr_iff)
  with a show "Remove s e = Inr (s, False)"
    by (simp add: Remove_def)
next
  assume h: "e' < ecs_MaxEntities r \<and>
      (TryGetPool r T = None \<or> (\<exists>pool. TryGetPool r T = Some pool \<and> Has pool e' = Inr False))"
  then consider "TryGetPool r T = None"
    | pool where "TryGetPool r T = Some pool" "Has pool e' = Inr False" by auto
  then show "RemoveComponent r T e' = Inr (r, False)"
  proof cases
    case 1
    with h show ?thesis by (simp add: RemoveComponent_def)
  next
    case 2
    from 2 have "e' < m_MaxEntities pool" by (simp add: Has_Inr_iff)
    with 2 have "Remove pool e' = Inr (pool, False)"
      by (simp add: Remove_def)
    with h 2 show ?thesis
      by (simp add: RemoveComponent_def TryGetPool_def update_existing)
  qed
qed

theorem Remove_absent_noop_witness:
  "Has (SparseSet_new 4 :: nat SparseSet) 1 = Inr False \<and>
   Remove (SparseSet_new 4 :: nat SparseSet) 1 = Inr (SparseSet_new 4, False) \<and>
   RemoveComponent (ECSInstance_new 4 :: (string, nat) ECSInstance) ''Position'' 1 =
     Inr (ECSInstance_new 4, False)"
proof -
  have h1: "Has (SparseSet_new 4 :: nat SparseSet) 1 = Inr False"
    by (simp add: Has_def SparseSet_new_def)
  have h2: "(1::nat) < ecs_MaxEntities (ECSInstance_new 4 :: (string, nat) ECSInstance) \<and>
      (TryGetPool (ECSInstance_new 4 :: (string, nat) ECSInstance) ''Position'' = None \<or>
       (\<exists>pool. TryGetPool (ECSInstance_new 4 :: (string, nat) ECSInstance) ''Position'' = Some pool
          \<and> Has pool 1 = Inr False))"
    by (simp add: ECSInstance_new_def TryGetPool_def)
  from Remove_absent_noop [of "SparseSet_new 4 :: nat SparseSet" 1 1
      "ECSInstance_new 4 :: (string, nat) ECSInstance" "''Position''"] h1 h2
  show ?thesis by blast
qed

section \<open>Capacity of \<^verbatim>\<open>CreateEntity\<close>\<close>

lemma size_t_inc_small: "n < SIZE_MAX \<Longrightarrow> size_t_inc n = n + 1"
  by (simp add: size_t_inc_def)

lemma UINT_MAX_less_SIZE_MAX: "UINT_MAX < SIZE_MAX"
  by (simp add: UINT_MAX_def SIZE_MAX_def)

lemma CreateEntity_fresh:
  "m_FreeEntities r = [] \<Longrightarrow> m_NextEntity r < SIZE_MAX \<Longrightarrow>
   CreateEntity r =
     (if m_NextEntity r + 1 < ecs_MaxEntities r
      then Inr (r\<lparr>m_NextEntity := m_NextEntity r + 1\<rparr>, m_NextEntity r)
      else Inl AssertionFailed)"
  by (simp add: CreateEntity_def size_t_inc_small)

lemma create_run:
  "m_FreeEntities r = [] \<Longrightarrow> m_NextEntity r \<le> ecs_MaxEntities r \<Longrightarrow>
   ecs_MaxEntities r \<le> UINT_MAX \<Longrightarrow>
   entity_calls r (replicate n CreateCall) =
     (if n = 0 \<or> m_NextEntity r + n < ecs_MaxEntities r
      then Inr (r\<lparr>m_NextEntity := m_NextEntity r + n\<rparr>, [m_NextEntity r..<m_NextEntity r + n])
      else Inl AssertionFailed)"
proof (induction n arbitrary: r)
  case 0
  then show ?case by simp
next
  case (Suc n)
  from Suc.prems UINT_MAX_less_SIZE_MAX have small: "m_NextEntity r < SIZE_MAX" by linarith
  show ?case
  proof (cases "m_NextEntity r + 1 < ecs_MaxEntities r")
    case False
    with Suc.prems small show ?thesis
      by (simp add: CreateEntity_fresh)
  next
    case True
    let ?r' = "r\<lparr>m_NextEntity := m_NextEntity r + 1\<rparr>"
    from True Suc.prems small have step: "CreateEntity r = Inr (?r', m_NextEntity r)"
      by (simp add: CreateEntity_fresh)
    from True Suc.prems have
      "entity_calls ?r' (replicate n CreateCall) =
         (if n = 0 \<or> m_NextEntity ?r' + n < ecs_MaxEntities ?r'
          then Inr (?r'\<lparr>m_NextEntity := m_NextEntity ?r' + n\<rparr>,
                    [m_NextEntity ?r'..<m_NextEntity ?r' + n])
          else Inl AssertionFailed)"
      by (intro Suc.IH) simp_all
    with step True show ?thesis
      by (auto simp: upt_conv_Cons)
  qed
qed

text \<open>
  Claim C1 says that a registry of capacity \<open>maxEntities\<close> without deletions serves
  \<open>maxEntities\<close> calls of \<^verbatim>\<open>CreateEntity\<close> and fails at the next one. The assertion of the
  code is \<^verbatim>\<open>m_NextEntity + 1 < m_MaxEntities\<close>: with capacity 4 the IDs 0, 1 and 2 are
  issued and the fourth call already fails, with three live entities.
\<close>

theorem CreateEntity_capacity_counterexample:
  "entity_calls (ECSInstance_new 4 :: (string, nat) ECSInstance) [CreateCall, CreateCall, CreateCall] =
     Inr (\<lparr>ecs_MaxEntities = 4, m_NextEntity = 3, m_FreeEntities = [], m_ComponentPools = []\<rparr>,
          [0, 1, 2]) \<and>
   CreateEntity
     (\<lparr>ecs_MaxEntities = 4, m_NextEntity = 3, m_FreeEntities = [], m_ComponentPools = []\<rparr>
        :: (string, nat) ECSInstance) = Inl AssertionFailed"
  by (simp add: ECSInstance_new_def CreateEntity_def size_t_inc_def SIZE_MAX_def)

text \<open>
  Claim C1, amended. With an empty free list \<^verbatim>\<open>CreateEntity\<close> returns the high-water mark
  \<open>m_NextEntity\<close> and advances it exactly when \<open>m_NextEntity + 1 < maxEntities\<close>, and fails
  by assertion otherwise. For a new registry of capacity \<open>maxEntities\<close> (an
  \<^verbatim>\<open>unsigned int\<close>) and no deletions, \<open>n\<close> calls in a row all succeed exactly when \<open>n = 0\<close>
  or \<open>n < maxEntities\<close>, and then return the IDs \<open>0, ..., n - 1\<close>: the first
  \<open>maxEntities - 1\<close> calls succeed and the call after them fails.
\<close>

theorem CreateEntity_capacity:
  assumes "maxEntities \<le> UINT_MAX"
  shows "entity_calls (ECSInstance_new maxEntities :: ('k, 'a) ECSInstance) (replicate n CreateCall) =
           (if n = 0 \<or> n < maxEntities
            then Inr ((ECSInstance_new maxEntities)\<lparr>m_NextEntity := n\<rparr>, [0..<n])
            else Inl AssertionFailed) \<and>
         (m_FreeEntities r = [] \<and> m_NextEntity r < SIZE_MAX \<longrightarrow>
            CreateEntity r =
              (if m_NextEntity r + 1 < ecs_MaxEntities r
               then Inr (r\<lparr>m_NextEntity := m_NextEntity r + 1\<rparr>, m_NextEntity r)
               else Inl AssertionFailed))"
  using create_run [of "ECSInstance_new maxEntities :: ('k, 'a) ECSInstance" n] assms
  by (simp add: ECSInstance_new_def CreateEntity_fresh)

theorem CreateEntity_capacity_witness:
  "(4::nat) \<le> UINT_MAX \<and>
   entity_calls (ECSInstance_new 4 :: (string, nat) ECSInstance) (replicate 3 CreateCall) =
     Inr (\<lparr>ecs_MaxEntities = 4, m_NextEntity = 3, m_FreeEntities = [], m_ComponentPools = []\<rparr>,
          [0, 1, 2]) \<and>
   entity_calls (ECSInstance_new 4 :: (string, nat) ECSInstance) (replicate 4 CreateCall) =
     Inl AssertionFailed \<and>
   CreateEntity
     (\<lparr>ecs_MaxEntities = 4, m_NextEntity = 3, m_FreeEntities = [], m_ComponentPools = []\<rparr>
        :: (string, nat) ECSInstance) = Inl AssertionFailed"
proof -
  let ?r = "\<lparr>ecs_MaxEntities = 4, m_NextEntity = 3, m_FreeEntities = [], m_ComponentPools = []\<rparr>
              :: (string, nat) ECSInstance"
  have h: "(4::nat) \<le> UINT_MAX" by (simp add: UINT_MAX_def)
  have u: "[0..<3] = [0, 1, 2::nat]" by code_simp
  have g: "m_FreeEntities ?r = [] \<and> m_NextEntity ?r < SIZE_MAX" by (simp add: SIZE_MAX_def)
  from CreateEntity_capacity [OF h, where n = 3 and r = ?r and ?'k = string and ?'a = nat]
       CreateEntity_capacity [OF h, where n = 4 and r = ?r and ?'k = string and ?'a = nat] h u g
  show ?thesis by (simp add: ECSInstance_new_def)
qed

section \<open>Recycling of entity IDs\<close>

lemma Remove_Has_False:
  assumes "Remove p e = Inr (p', b)"
  shows "Has p' e = Inr False"
proof -
  from assms have e: "e < m_MaxEntities p"
    by (auto simp: Remove_def split: if_splits)
  with assms obtain present where h: "Has p e = Inr present"
    by (auto simp: Remove_def split: sum.splits)
  then have len: "e < length (m_SparseSet p)" by (simp add: Has_Inr_iff)
  show ?thesis
  proof (cases present)
    case False
    with assms e h show ?thesis by (simp add: Remove_def)
  next
    case True
    with assms e h len show ?thesis
      by (auto simp: Remove_def Let_def Has_Inr_iff split: if_splits)
  qed
qed

lemma Remove_MaxEntities:
  "Remove p e = Inr (p', b) \<Longrightarrow> m_MaxEntities p' = m_MaxEntities p"
  by (auto simp: Remove_def Let_def split: if_splits sum.splits)

lemma RemoveEntity_pools_result:
  "RemoveEntity_pools ps e = Inr ps' \<Longrightarrow>
   map fst ps' = map fst ps \<and> (\<forall>(T, p') \<in> set ps'. Has p' e = Inr False)"
proof (induction ps arbitrary: ps')
  case Nil
  then show ?case by simp
next
  case (Cons a ps)
  obtain T p where a: "a = (T, p)" by (cases a)
  from Cons.prems a obtain p' b rest where
    r: "Remove p e = Inr (p', b)" and rest: "RemoveEntity_pools ps e = Inr rest"
    and ps': "ps' = (T, p') # rest"
    by (auto split: sum.splits)
  from Cons.IH [OF rest] Remove_Has_False [OF r] a ps' show ?case by simp
qed

text \<open>
  Claim C9. When \<^verbatim>\<open>DeleteEntity(e)\<close> has returned, the next \<^verbatim>\<open>CreateEntity\<close> returns
  exactly \<open>e\<close>, the most recently freed ID. It touches no pool, leaves the free list and
  the high-water mark as they were before the deletion, and the recycled entity has no
  component: \<^verbatim>\<open>HasComponent<T>(e)\<close> is false for every component type. The witness is the
  scenario of the specification: a registry of capacity 4 with entities 0, 1, 2 holding a
  position each; deleting entity 0 and creating an entity returns 0.
\<close>

theorem recycle_LIFO:
  assumes "DeleteEntity r e = Inr r1"
  shows "\<exists>r2. CreateEntity r1 = Inr (r2, e) \<and>
          m_ComponentPools r2 = m_ComponentPools r1 \<and>
          map fst (m_ComponentPools r2) = map fst (m_ComponentPools r) \<and>
          m_FreeEntities r2 = m_FreeEntities r \<and>
          m_NextEntity r2 = m_NextEntity r \<and>
          (\<forall>T. HasComponent r2 T e = Inr False)"
proof -
  from assms have e: "e < ecs_MaxEntities r"
    by (auto simp: DeleteEntity_def split: if_splits)
  with assms obtain ps where ps: "RemoveEntity_pools (m_ComponentPools r) e = Inr ps"
    and r1: "r1 = r\<lparr>m_FreeEntities := m_FreeEntities r @ [e], m_ComponentPools := ps\<rparr>"
    by (auto simp: DeleteEntity_def split: sum.splits)
  let ?r2 = "r1\<lparr>m_FreeEntities := butlast (m_FreeEntities r1)\<rparr>"
  from r1 have c: "CreateEntity r1 = Inr (?r2, e)"
    by (simp add: CreateEntity_def)
  have has: "HasComponent ?r2 T e = Inr False" for T
  proof (cases "map_of ps T")
    case None
    with e r1 show ?thesis by (simp add: HasComponent_def TryGetPool_def)
  next
    case (Some p')
    then have "(T, p') \<in> set ps" by (rule map_of_SomeD)
    with RemoveEntity_pools_result [OF ps] have "Has p' e = Inr False" by auto
    with Some e r1 show ?thesis by (simp add: HasComponent_def TryGetPool_def)
  qed
  from RemoveEntity_pools_result [OF ps] r1 c has show ?thesis by simp
qed

theorem recycle_LIFO_witness:
  "DeleteEntity
     (\<lparr>ecs_MaxEntities = 4, m_NextEntity = 3, m_FreeEntities = [],
       m_ComponentPools =
         [(''Position'',
           \<lparr>m_MaxEntities = 4, m_SparseSet = [0, 1, 2, 3],
            m_DenseSet = [\<lparr>entity = 0, data = (1, 1)\<rparr>, \<lparr>entity = 1, data = (2, 2)\<rparr>,
                          \<lparr>entity = 2, data = (3, 3)\<rparr>]\<rparr>)]\<rparr>
      :: (string, nat \<times> nat) ECSInstance) 0 =
   Inr \<lparr>ecs_MaxEntities = 4, m_NextEntity = 3, m_FreeEntities = [0],
        m_ComponentPools =
          [(''Position'',
            \<lparr>m_MaxEntities = 4, m_SparseSet = [3, 1, 0, 3],
             m_DenseSet = [\<lparr>entity = 2, data = (3, 3)\<rparr>, \<lparr>entity = 1, data = (2, 2)\<rparr>]\<rparr>)]\<rparr> \<and>
   CreateEntity
     (\<lparr>ecs_MaxEntities = 4, m_NextEntity = 3, m_FreeEntities = [0],
       m_ComponentPools =
         [(''Position'',
           \<lparr>m_MaxEntities = 4, m_SparseSet = [3, 1, 0, 3],
            m_DenseSet = [\<lparr>entity = 2, data = (3, 3)\<rparr>, \<lparr>entity = 1, data = (2, 2)\<rparr>]\<rparr>)]\<rparr>
      :: (string, nat \<times> nat) ECSInstance) =
   Inr (\<lparr>ecs_MaxEntities = 4, m_NextEntity = 3, m_FreeEntities = [],
         m_ComponentPools =
           [(''Position'',
             \<lparr>m_MaxEntities = 4, m_SparseSet = [3, 1, 0, 3],
              m_DenseSet = [\<lparr>entity = 2, data = (3, 3)\<rparr>, \<lparr>entity = 1, data = (2, 2)\<rparr>]\<rparr>)]\<rparr>,
        0) \<and>
   HasComponent
     (\<lparr>ecs_MaxEntities = 4, m_NextEntity = 3, m_FreeEntities = [],
       m_ComponentPools =
         [(''Position'',
           \<lparr>m_MaxEntities = 4, m_SparseSet = [3, 1, 0, 3],
            m_DenseSet = [\<lparr>entity = 2, data = (3, 3)\<rparr>, \<lparr>entity = 1, data = (2, 2)\<rparr>]\<rparr>)]\<rparr>
      :: (string, nat \<times> nat) ECSInstance) ''Position'' 0 = Inr False"
  (is "DeleteEntity ?r 0 = Inr ?r1 \<and> CreateEntity ?r1 = Inr (?r2, 0) \<and> _")
proof -
  have h: "DeleteEntity ?r 0 = Inr ?r1"
    by (simp add: DeleteEntity_def Remove_def Has_def sentinel_def size_t_dec_def Let_def)
  from recycle_LIFO [OF h] obtain r2 where
    c: "CreateEntity ?r1 = Inr (r2, 0)" and n: "\<forall>T. HasComponent r2 T 0 = Inr False"
    by blast
  have "CreateEntity ?r1 = Inr (?r2, 0)" by (simp add: CreateEntity_def)
  with c have "r2 = ?r2" by simp
  with h c n show ?thesis by blast
qed

section \<open>Adding a component twice\<close>



lemma Add_absent:
  "Has s e = Inr False \<Longrightarrow>
   Add s e v = Inr (s\<lparr>m_SparseSet := (m_SparseSet s)[e := length (m_DenseSet s)],
                      m_DenseSet := m_DenseSet s @ [\<lparr>entity = e, data = v\<rparr>]\<rparr>, v)"
  by (auto simp: Add_def Let_def size_t_dec_def Has_def split: if_splits)

lemma Add_present:
  "Has s e = Inr True \<Longrightarrow> m_SparseSet s ! e < length (m_DenseSet s) \<Longrightarrow>
   Add s e v = Inr (s, data (m_DenseSet s ! (m_SparseSet s ! e)))"
  by (auto simp: Add_def Has_def split: if_splits)

lemma HasComponent_GetOrCreatePool:
  "e < ecs_MaxEntities r \<Longrightarrow> HasComponent r T e = Has (snd (GetOrCreatePool r T)) e"
  by (auto simp: HasComponent_def TryGetPool_def GetOrCreatePool_def Let_def Has_def
      SparseSet_new_def split: option.splits)






section \<open>Facts about the linking invariant\<close>

lemma linkedI:
  assumes "length (m_SparseSet s) = m_MaxEntities s"
    and "\<And>e. e < m_MaxEntities s \<Longrightarrow> m_SparseSet s ! e \<noteq> sentinel (m_MaxEntities s) \<Longrightarrow>
          m_SparseSet s ! e < length (m_DenseSet s) \<and>
          entity (m_DenseSet s ! (m_SparseSet s ! e)) = e"
    and "\<And>i. i < length (m_DenseSet s) \<Longrightarrow>
          entity (m_DenseSet s ! i) < m_MaxEntities s \<and>
          m_SparseSet s ! entity (m_DenseSet s ! i) = i"
  shows "linked s"
  using assms by (simp add: linked_def)

lemma linked_length: "linked s \<Longrightarrow> length (m_SparseSet s) = m_MaxEntities s"
  by (simp add: linked_def)

lemma linked_sparseD:
  "linked s \<Longrightarrow> e < m_MaxEntities s \<Longrightarrow> m_SparseSet s ! e \<noteq> sentinel (m_MaxEntities s) \<Longrightarrow>
   m_SparseSet s ! e < length (m_DenseSet s) \<and> entity (m_DenseSet s ! (m_SparseSet s ! e)) = e"
  by (simp add: linked_def)

lemma linked_denseD:
  "linked s \<Longrightarrow> i < length (m_DenseSet s) \<Longrightarrow>
   entity (m_DenseSet s ! i) < m_MaxEntities s \<and> m_SparseSet s ! entity (m_DenseSet s ! i) = i"
  by (simp add: linked_def)

lemma linked_new: "linked (SparseSet_new c)"
  by (simp add: linked_def SparseSet_new_def)


lemma linked_distinct:
  assumes "linked s"
  shows "distinct (map entity (m_DenseSet s))"
proof -
  have "i = j" if "i < length (m_DenseSet s)" "j < length (m_DenseSet s)"
    "entity (m_DenseSet s ! i) = entity (m_DenseSet s ! j)" for i j
  proof -
    have "i = m_SparseSet s ! entity (m_DenseSet s ! i)"
      by (rule linked_denseD [OF assms that(1), THEN conjunct2, symmetric])
    also have "\<dots> = m_SparseSet s ! entity (m_DenseSet s ! j)"
      by (simp only: that(3))
    also have "\<dots> = j"
      by (rule linked_denseD [OF assms that(2), THEN conjunct2])
    finally show ?thesis .
  qed
  then show ?thesis
    by (simp add: distinct_conv_nth) blast
qed

lemma distinct_bounded_length:
  fixes xs :: "nat list"
  assumes "distinct xs" and "\<forall>x \<in> set xs. x < n"
  shows "length xs \<le> n"
proof -
  from assms(2) have "set xs \<subseteq> {..<n}" by auto
  then have "card (set xs) \<le> card {..<n}" by (intro card_mono) simp_all
  with assms(1) show ?thesis by (simp add: distinct_card)
qed

lemma Remove_present:
  assumes has: "Has s e = Inr True"
    and idx: "m_SparseSet s ! e < length (m_DenseSet s)"
    and moved: "entity (last (m_DenseSet s)) < length (m_SparseSet s)"
  shows "Remove s e =
     Inr (s\<lparr>m_SparseSet :=
              (m_SparseSet s)[entity (last (m_DenseSet s)) := m_SparseSet s ! e,
                              e := sentinel (m_MaxEntities s)],
            m_DenseSet := butlast ((m_DenseSet s)[m_SparseSet s ! e := last (m_DenseSet s)])\<rparr>,
          True)"
proof -
  from idx have ne: "m_DenseSet s \<noteq> []" by auto
  then have dec: "size_t_dec (length (m_DenseSet s)) = length (m_DenseSet s) - 1"
    by (simp add: size_t_dec_def)
  from ne have l: "m_DenseSet s ! (length (m_DenseSet s) - 1) = last (m_DenseSet s)"
    by (simp add: last_conv_nth)
  have same: "(m_DenseSet s)[m_SparseSet s ! e := last (m_DenseSet s)] ! (length (m_DenseSet s) - 1)
      = last (m_DenseSet s)"
    using l idx by (simp add: nth_list_update)
  from has have e: "e < m_MaxEntities s" by (simp add: Has_Inr_iff)
  have lt: "length (m_DenseSet s) - 1 < length (m_DenseSet s)" using ne by simp
  show ?thesis
    unfolding Remove_def Let_def dec
    by (simp only: e has idx lt same l moved not_True_eq_False not_not if_True if_False
        sum.case simp_thms)
qed



lemma Remove_linked:
  assumes lk: "linked s" and has: "Has s e = Inr True"
  obtains s' where
    "Remove s e = Inr (s', True)"
    "s' = s\<lparr>m_SparseSet :=
              (m_SparseSet s)[entity (last (m_DenseSet s)) := m_SparseSet s ! e,
                              e := sentinel (m_MaxEntities s)],
            m_DenseSet := butlast ((m_DenseSet s)[m_SparseSet s ! e := last (m_DenseSet s)])\<rparr>"
    "linked s'"
    "m_SparseSet s ! e < length (m_DenseSet s)"
    "entity (m_DenseSet s ! (m_SparseSet s ! e)) = e"
proof -
  let ?cap = "m_MaxEntities s" and ?sp = "m_SparseSet s" and ?d = "m_DenseSet s"
  let ?n = "length ?d" and ?idx = "?sp ! e"
  let ?z = "entity (last ?d)"
  let ?sp' = "?sp[?z := ?idx, e := sentinel ?cap]"
  let ?d' = "butlast (?d[?idx := last ?d])"
  let ?s' = "s\<lparr>m_SparseSet := ?sp', m_DenseSet := ?d'\<rparr>"
  from has have e: "e < ?cap" and pres: "?idx \<noteq> sentinel ?cap"
    by (simp_all add: Has_Inr_iff)
  from linked_sparseD [OF lk e pres] have idx: "?idx < ?n" and ent: "entity (?d ! ?idx) = e"
    by simp_all
  have len: "length ?sp = ?cap" by (rule linked_length [OF lk])
  from idx have ne: "?d \<noteq> []" by auto
  then have last_nth: "last ?d = ?d ! (?n - 1)" by (simp add: last_conv_nth)
  from idx have n1: "?n - 1 < ?n" by simp
  from linked_denseD [OF lk n1] last_nth have z: "?z < ?cap" and spz: "?sp ! ?z = ?n - 1"
    by simp_all
  from z len have "?z < length ?sp" by simp
  from Remove_present [OF has idx this] have rem: "Remove s e = Inr (?s', True)" .
  have lk': "linked ?s'"
  proof (rule linkedI)
    show "length (m_SparseSet ?s') = m_MaxEntities ?s'" using len by simp
  next
    fix e' assume e': "e' < m_MaxEntities ?s'"
      and p': "m_SparseSet ?s' ! e' \<noteq> sentinel (m_MaxEntities ?s')"
    from e' have e'c: "e' < ?cap" by simp
    from p' e len have ne': "e' \<noteq> e" by auto
    show "m_SparseSet ?s' ! e' < length (m_DenseSet ?s') \<and>
          entity (m_DenseSet ?s' ! (m_SparseSet ?s' ! e')) = e'"
    proof (cases "e' = ?z")
      case True
      with ne' z len have v: "m_SparseSet ?s' ! e' = ?idx" by simp
      from True ne' ent last_nth have "?idx \<noteq> ?n - 1" by auto
      with idx have lt: "?idx < ?n - 1" by simp
      with idx have d: "?d' ! ?idx = last ?d" by (simp add: nth_butlast)
      from v lt d True show ?thesis by simp
    next
      case False
      with ne' have v: "m_SparseSet ?s' ! e' = ?sp ! e'" by simp
      with p' have "?sp ! e' \<noteq> sentinel ?cap" by simp
      from linked_sparseD [OF lk e'c this]
      have j: "?sp ! e' < ?n" and je: "entity (?d ! (?sp ! e')) = e'" by simp_all
      from je False last_nth have "?sp ! e' \<noteq> ?n - 1" by auto
      with j have lt: "?sp ! e' < ?n - 1" by simp
      from je ne' ent have "?sp ! e' \<noteq> ?idx" by auto
      with lt have d: "?d' ! (?sp ! e') = ?d ! (?sp ! e')" by (simp add: nth_butlast)
      from v lt d je show ?thesis by simp
    qed
  next
    fix i assume "i < length (m_DenseSet ?s')"
    then have i: "i < ?n - 1" by simp
    then have i': "i < ?n" by simp
    show "entity (m_DenseSet ?s' ! i) < m_MaxEntities ?s' \<and>
          m_SparseSet ?s' ! entity (m_DenseSet ?s' ! i) = i"
    proof (cases "i = ?idx")
      case True
      with i idx have d: "m_DenseSet ?s' ! i = last ?d" by (simp add: nth_butlast)
      from True i spz have "?z \<noteq> e" by auto
      with d z len True show ?thesis by simp
    next
      case False
      with i have d: "m_DenseSet ?s' ! i = ?d ! i" by (simp add: nth_butlast)
      from linked_denseD [OF lk i'] have y: "entity (?d ! i) < ?cap"
        and spy: "?sp ! entity (?d ! i) = i" by simp_all
      from spy False have "entity (?d ! i) \<noteq> e" by auto
      moreover from spy spz i have "entity (?d ! i) \<noteq> ?z" by auto
      ultimately show ?thesis using d y spy by simp
    qed
  qed
  from that [OF rem refl lk' idx ent] show ?thesis .
qed

lemma set_swap_pop:
  assumes "distinct xs" and "i < length xs"
  shows "set (butlast (xs[i := last xs])) = set xs - {xs ! i}"
proof -
  from assms(2) have ne: "xs \<noteq> []" by auto
  then have split: "xs = butlast xs @ [last xs]" by simp
  with assms(1) have notin: "last xs \<notin> set (butlast xs)"
    by (metis distinct_append distinct.simps(2) disjoint_iff list.set_intros(1))
  have "set (butlast xs @ [last xs]) = set xs"
    by (simp only: append_butlast_last_id [OF ne])
  then have sb: "set xs = insert (last xs) (set (butlast xs))" by simp
  show ?thesis
  proof (cases "i = length xs - 1")
    case True
    with ne have "xs ! i = last xs" by (simp add: last_conv_nth)
    then have "xs[i := last xs] = xs" by (metis list_update_id)
    with sb notin \<open>xs ! i = last xs\<close> show ?thesis by auto
  next
    case False
    with assms(2) have lt: "i < length (butlast xs)" by simp
    then have nb: "butlast xs ! i = xs ! i" by (simp add: nth_butlast)
    from assms(1) have db: "distinct (butlast xs)" by (rule distinct_butlast)
    have "butlast (xs[i := last xs]) = (butlast xs)[i := last xs]"
      using False by (simp add: butlast_list_update)
    then have "set (butlast (xs[i := last xs])) = insert (last xs) (set (butlast xs) - {xs ! i})"
      using set_update_distinct [OF db lt, of "last xs"] nb by simp
    moreover from lt nb have "xs ! i \<in> set (butlast xs)" by (metis nth_mem)
    with notin have "xs ! i \<noteq> last xs" by auto
    ultimately show ?thesis using sb notin by auto
  qed
qed

lemma linked_distinct_entries: "linked s \<Longrightarrow> distinct (m_DenseSet s)"
  using linked_distinct [of s] by (simp add: distinct_map)

lemma Add_absent_linked:
  assumes lk: "linked s" and has: "Has s e = Inr False"
    and room: "length (m_DenseSet s) + 1 < m_MaxEntities s"
  shows "linked (s\<lparr>m_SparseSet := (m_SparseSet s)[e := length (m_DenseSet s)],
                   m_DenseSet := m_DenseSet s @ [\<lparr>entity = e, data = v\<rparr>]\<rparr>)"
    (is "linked ?s'")
proof (rule linkedI)
  let ?cap = "m_MaxEntities s" and ?sp = "m_SparseSet s" and ?d = "m_DenseSet s"
  let ?n = "length ?d"
  have len: "length ?sp = ?cap" by (rule linked_length [OF lk])
  from has have e: "e < ?cap" and abs: "?sp ! e = sentinel ?cap" by (simp_all add: Has_Inr_iff)
  from room have sent: "sentinel ?cap = ?cap - 1" by (simp add: sentinel_pos)
  show "length (m_SparseSet ?s') = m_MaxEntities ?s'" using len by simp
  show "m_SparseSet ?s' ! e' < length (m_DenseSet ?s') \<and>
        entity (m_DenseSet ?s' ! (m_SparseSet ?s' ! e')) = e'"
    if e': "e' < m_MaxEntities ?s'" and p': "m_SparseSet ?s' ! e' \<noteq> sentinel (m_MaxEntities ?s')"
    for e'
  proof (cases "e' = e")
    case True
    with e len show ?thesis by simp
  next
    case False
    with p' have "?sp ! e' \<noteq> sentinel ?cap" by simp
    with e' linked_sparseD [OF lk, of e'] have "?sp ! e' < ?n" "entity (?d ! (?sp ! e')) = e'"
      by simp_all
    with False show ?thesis by (simp add: nth_append)
  qed
  show "entity (m_DenseSet ?s' ! i) < m_MaxEntities ?s' \<and>
        m_SparseSet ?s' ! entity (m_DenseSet ?s' ! i) = i"
    if i: "i < length (m_DenseSet ?s')" for i
  proof (cases "i = ?n")
    case True
    with e len show ?thesis by simp
  next
    case False
    with i have i': "i < ?n" by simp
    from linked_denseD [OF lk i'] have y: "entity (?d ! i) < ?cap" and spy: "?sp ! entity (?d ! i) = i"
      by simp_all
    from i' room sent have "i \<noteq> sentinel ?cap" by simp
    with spy abs have "entity (?d ! i) \<noteq> e" by auto
    with i' y spy show ?thesis by (simp add: nth_append)
  qed
qed

lemma linked_present_slot:
  "linked s \<Longrightarrow> Has s e = Inr True \<Longrightarrow> m_SparseSet s ! e < length (m_DenseSet s)"
  using linked_sparseD [of s e] by (simp add: Has_Inr_iff)

lemma linked_Has_total:
  "linked s \<Longrightarrow> e < m_MaxEntities s \<Longrightarrow> \<exists>b. Has s e = Inr b"
  by (simp add: Has_def linked_length)

lemma below_sentinel_length:
  assumes "linked s" and "\<forall>x \<in> set (m_DenseSet s). entity x + 1 < m_MaxEntities s"
  shows "length (m_DenseSet s) \<le> m_MaxEntities s - 1"
proof -
  from assms(2) have "\<forall>x \<in> set (map entity (m_DenseSet s)). x < m_MaxEntities s - 1" by auto
  from distinct_bounded_length [OF linked_distinct [OF assms(1)] this] show ?thesis by simp
qed

lemma below_sentinel_room:
  assumes lk: "linked s" and below: "\<forall>x \<in> set (m_DenseSet s). entity x + 1 < m_MaxEntities s"
    and has: "Has s e = Inr False" and e: "e + 1 < m_MaxEntities s"
  shows "length (m_DenseSet s) + 1 < m_MaxEntities s"
proof -
  let ?cap = "m_MaxEntities s"
  from e have sent: "sentinel ?cap = ?cap - 1" by (simp add: sentinel_pos)
  from has have abs: "m_SparseSet s ! e = sentinel ?cap" by (simp add: Has_Inr_iff)
  have notin: "e \<notin> set (map entity (m_DenseSet s))"
  proof
    assume "e \<in> set (map entity (m_DenseSet s))"
    then obtain i where i: "i < length (m_DenseSet s)" and ei: "entity (m_DenseSet s ! i) = e"
      by (auto simp: in_set_conv_nth)
    from linked_denseD [OF lk i] ei abs sent have "i = ?cap - 1" by simp
    with i below_sentinel_length [OF lk below] show False by simp
  qed
  with linked_distinct [OF lk] have d: "distinct (e # map entity (m_DenseSet s))" by simp
  from below e have "\<forall>x \<in> set (e # map entity (m_DenseSet s)). x < ?cap - 1" by auto
  from distinct_bounded_length [OF d this] e show ?thesis by simp
qed

lemma linked_entry_unique:
  assumes "linked s" and "x \<in> set (m_DenseSet s)"
  shows "m_SparseSet s ! entity x < length (m_DenseSet s) \<and>
         m_DenseSet s ! (m_SparseSet s ! entity x) = x"
proof -
  from assms(2) obtain m where m: "m < length (m_DenseSet s)" and x: "m_DenseSet s ! m = x"
    by (auto simp: in_set_conv_nth)
  from linked_denseD [OF assms(1) m] x have "m_SparseSet s ! entity x = m" by simp
  with m x show ?thesis by simp
qed

lemma Get_present:
  "Has s y = Inr True \<Longrightarrow> m_SparseSet s ! y < length (m_DenseSet s) \<Longrightarrow>
   Get s y = Inr (data (m_DenseSet s ! (m_SparseSet s ! y)))"
  by (auto simp: Get_def Has_def split: if_splits)

lemma Remove_linked_set:
  assumes lk: "linked s" and has: "Has s e = Inr True" and rem: "Remove s e = Inr (s', b)"
  shows "set (m_DenseSet s') = set (m_DenseSet s) - {m_DenseSet s ! (m_SparseSet s ! e)}"
proof -
  from lk has obtain t where t: "Remove s e = Inr (t, True)"
    and d: "t = s\<lparr>m_SparseSet :=
              (m_SparseSet s)[entity (last (m_DenseSet s)) := m_SparseSet s ! e,
                              e := sentinel (m_MaxEntities s)],
            m_DenseSet := butlast ((m_DenseSet s)[m_SparseSet s ! e := last (m_DenseSet s)])\<rparr>"
    and idx: "m_SparseSet s ! e < length (m_DenseSet s)"
    by (rule Remove_linked)
  from t rem have "s' = t" by simp
  with d have "m_DenseSet s' = butlast ((m_DenseSet s)[m_SparseSet s ! e := last (m_DenseSet s)])"
    by simp
  with set_swap_pop [OF linked_distinct_entries [OF lk] idx] show ?thesis by simp
qed


section \<open>Removal compaction\<close>

text \<open>
  Claim C6. Let the pool satisfy the linking invariant and let \<open>e\<close> be present
  (\<^verbatim>\<open>Has(e)\<close> is true). Then \<^verbatim>\<open>Remove(e)\<close> returns true; the dense vector is the old one
  with the last entry written into the slot of \<open>e\<close> and then popped, so its length
  decreases by exactly one; when the slot of \<open>e\<close> was not itself the last one, the entry
  that was last now occupies that slot and its sparse entry holds that slot; \<open>e\<close> is
  marked absent; the invariant holds again, so every remaining entity's sparse entry
  indexes its dense slot; the dense entries are the old ones without the entry of \<open>e\<close>;
  and every other present entity is still present with the same stored value.
\<close>

theorem Remove_compaction:
  assumes lk: "linked s" and has: "Has s e = Inr True"
  shows "\<exists>s'. Remove s e = Inr (s', True) \<and>
     Suc (length (m_DenseSet s')) = length (m_DenseSet s) \<and>
     m_DenseSet s' = butlast ((m_DenseSet s)[m_SparseSet s ! e := last (m_DenseSet s)]) \<and>
     (m_SparseSet s ! e < length (m_DenseSet s') \<longrightarrow>
        m_DenseSet s' ! (m_SparseSet s ! e) = last (m_DenseSet s) \<and>
        m_SparseSet s' ! entity (last (m_DenseSet s)) = m_SparseSet s ! e) \<and>
     Has s' e = Inr False \<and>
     linked s' \<and>
     set (m_DenseSet s') = set (m_DenseSet s) - {m_DenseSet s ! (m_SparseSet s ! e)} \<and>
     (\<forall>y. y \<noteq> e \<and> Has s y = Inr True \<longrightarrow> Has s' y = Inr True \<and> Get s' y = Get s y)"
proof -
  let ?d = "m_DenseSet s" and ?sp = "m_SparseSet s" and ?cap = "m_MaxEntities s"
  from lk has obtain s' where rem: "Remove s e = Inr (s', True)"
    and s': "s' = s\<lparr>m_SparseSet := ?sp[entity (last ?d) := ?sp ! e, e := sentinel ?cap],
                   m_DenseSet := butlast (?d[?sp ! e := last ?d])\<rparr>"
    and lk': "linked s'"
    and idx: "?sp ! e < length ?d"
    and ent: "entity (?d ! (?sp ! e)) = e"
    by (rule Remove_linked)
  from s' have dense: "m_DenseSet s' = butlast (?d[?sp ! e := last ?d])"
    and sparse: "m_SparseSet s' = ?sp[entity (last ?d) := ?sp ! e, e := sentinel ?cap]"
    and cap: "m_MaxEntities s' = ?cap" by simp_all
  from dense idx have len: "Suc (length (m_DenseSet s')) = length ?d" by simp
  have moved: "m_DenseSet s' ! (?sp ! e) = last ?d \<and>
      m_SparseSet s' ! entity (last ?d) = ?sp ! e" if lt: "?sp ! e < length (m_DenseSet s')"
  proof -
    from lt dense idx have 1: "m_DenseSet s' ! (?sp ! e) = last ?d"
      by (simp add: nth_butlast)
    from linked_denseD [OF lk' lt] 1 show ?thesis by simp
  qed
  from rem have gone: "Has s' e = Inr False" by (rule Remove_Has_False)
  from Remove_linked_set [OF lk has rem]
  have set: "set (m_DenseSet s') = set ?d - {?d ! (?sp ! e)}" .
  have others: "Has s' y = Inr True \<and> Get s' y = Get s y"
    if y: "y \<noteq> e" and hy: "Has s y = Inr True" for y
  proof -
    from hy have yc: "y < ?cap" and py: "?sp ! y \<noteq> sentinel ?cap" by (simp_all add: Has_Inr_iff)
    from has have pe: "?sp ! e \<noteq> sentinel ?cap" by (simp add: Has_Inr_iff)
    from linked_sparseD [OF lk yc py] have j: "?sp ! y < length ?d"
      and ej: "entity (?d ! (?sp ! y)) = y" by simp_all
    have zc: "entity (last ?d) < length ?sp"
    proof -
      from idx have n1: "length ?d - 1 < length ?d" and ne: "?d \<noteq> []" by auto
      from ne have "last ?d = ?d ! (length ?d - 1)" by (rule last_conv_nth)
      with linked_denseD [OF lk n1] linked_length [OF lk] show ?thesis by simp
    qed
    have "m_SparseSet s' ! y \<noteq> sentinel ?cap"
      using y py pe zc by (simp add: sparse nth_list_update)
    with yc linked_length [OF lk'] cap have hy': "Has s' y = Inr True"
      by (simp add: Has_Inr_iff)
    from linked_present_slot [OF lk' hy'] have k: "m_SparseSet s' ! y < length (m_DenseSet s')" .
    from hy' cap have "m_SparseSet s' ! y \<noteq> sentinel (m_MaxEntities s')" by (simp add: Has_Inr_iff)
    from linked_sparseD [OF lk' _ this] yc cap
    have ek: "entity (m_DenseSet s' ! (m_SparseSet s' ! y)) = y" by simp
    from k have "m_DenseSet s' ! (m_SparseSet s' ! y) \<in> set (m_DenseSet s')" by (rule nth_mem)
    with set have "m_DenseSet s' ! (m_SparseSet s' ! y) \<in> set ?d" by simp
    from linked_entry_unique [OF lk this] ek
    have "m_DenseSet s' ! (m_SparseSet s' ! y) = ?d ! (?sp ! y)" by simp
    with Get_present [OF hy j] Get_present [OF hy' k] hy' show ?thesis by simp
  qed
  from rem len dense moved gone lk' set others show ?thesis by blast
qed

theorem Remove_compaction_witness:
  "linked (\<lparr>m_MaxEntities = 4, m_SparseSet = [0, 1, 2, 3],
            m_DenseSet = [\<lparr>entity = 0, data = (1, 1)\<rparr>, \<lparr>entity = 1, data = (2, 2)\<rparr>,
                          \<lparr>entity = 2, data = (3, 3)\<rparr>]\<rparr> :: (nat \<times> nat) SparseSet) \<and>
   Has (\<lparr>m_MaxEntities = 4, m_SparseSet = [0, 1, 2, 3],
         m_DenseSet = [\<lparr>entity = 0, data = (1, 1)\<rparr>, \<lparr>entity = 1, data = (2, 2)\<rparr>,
                       \<lparr>entity = 2, data = (3, 3)\<rparr>]\<rparr> :: (nat \<times> nat) SparseSet) 1 = Inr True \<and>
   Remove (\<lparr>m_MaxEntities = 4, m_SparseSet = [0, 1, 2, 3],
            m_DenseSet = [\<lparr>entity = 0, data = (1, 1)\<rparr>, \<lparr>entity = 1, data = (2, 2)\<rparr>,
                          \<lparr>entity = 2, data = (3, 3)\<rparr>]\<rparr> :: (nat \<times> nat) SparseSet) 1 =
     Inr (\<lparr>m_MaxEntities = 4, m_SparseSet = [0, 3, 1, 3],
           m_DenseSet = [\<lparr>entity = 0, data = (1, 1)\<rparr>, \<lparr>entity = 2, data = (3, 3)\<rparr>]\<rparr>, True) \<and>
   linked (\<lparr>m_MaxEntities = 4, m_SparseSet = [0, 3, 1, 3],
            m_DenseSet = [\<lparr>entity = 0, data = (1, 1)\<rparr>, \<lparr>entity = 2, data = (3, 3)\<rparr>]\<rparr>
              :: (nat \<times> nat) SparseSet) \<and>
   Has (\<lparr>m_MaxEntities = 4, m_SparseSet = [0, 3, 1, 3],
         m_DenseSet = [\<lparr>entity = 0, data = (1, 1)\<rparr>, \<lparr>entity = 2, data = (3, 3)\<rparr>]\<rparr>
           :: (nat \<times> nat) SparseSet) 1 = Inr False"
  (is "linked ?s \<and> Has ?s 1 = Inr True \<and> Remove ?s 1 = Inr (?s', True) \<and> _")
proof -
  have lk: "linked ?s"
    by (simp add: linked_def sentinel_def size_t_dec_def nth_Cons' Ball_def)
  have has: "Has ?s 1 = Inr True"
    by (simp add: Has_def sentinel_def size_t_dec_def)
  from Remove_compaction [OF lk has] obtain s' where
    r: "Remove ?s 1 = Inr (s', True)" and lk': "linked s'" and gone: "Has s' 1 = Inr False"
    by blast
  have "Remove ?s 1 = Inr (?s', True)"
    by (simp add: Remove_def Has_def sentinel_def size_t_dec_def Let_def)
  with r have "s' = ?s'" by simp
  with lk has r lk' gone show ?thesis by simp
qed

section \<open>The sentinel collision\<close>

lemma pool_calls_append:
  "pool_calls s (xs @ ys) =
     (case pool_calls s xs of Inl err \<Rightarrow> Inl err | Inr s' \<Rightarrow> pool_calls s' ys)"
proof (induction xs arbitrary: s)
  case Nil
  then show ?case by simp
next
  case (Cons c xs)
  then show ?case by (cases c) (auto split: sum.splits)
qed

lemma fill_prefix:
  "k \<le> capacity \<Longrightarrow>
   pool_calls (SparseSet_new capacity) (map (\<lambda>e. AddCall e (v e)) [0..<k]) =
     Inr \<lparr>m_MaxEntities = capacity,
          m_SparseSet = [0..<k] @ replicate (capacity - k) (sentinel capacity),
          m_DenseSet = map (\<lambda>e. \<lparr>entity = e, data = v e\<rparr>) [0..<k]\<rparr>"
proof (induction k)
  case 0
  then show ?case by (simp add: SparseSet_new_def)
next
  case (Suc k)
  let ?s = "\<lparr>m_MaxEntities = capacity,
          m_SparseSet = [0..<k] @ replicate (capacity - k) (sentinel capacity),
          m_DenseSet = map (\<lambda>e. \<lparr>entity = e, data = v e\<rparr>) [0..<k]\<rparr>"
  from Suc.prems have k: "k < capacity" by simp
  then have rep: "replicate (capacity - k) (sentinel capacity) =
      sentinel capacity # replicate (capacity - Suc k) (sentinel capacity)"
    by (simp add: Suc_diff_Suc flip: replicate_Suc)
  have absent: "Has ?s k = Inr False"
    using k by (simp add: Has_def nth_append)
  have upd: "(m_SparseSet ?s)[k := length (m_DenseSet ?s)] =
      [0..<Suc k] @ replicate (capacity - Suc k) (sentinel capacity)"
    by (simp add: rep list_update_append)
  from Suc.IH k have "pool_calls (SparseSet_new capacity) (map (\<lambda>e. AddCall e (v e)) [0..<k]) = Inr ?s"
    by simp
  with Add_absent [OF absent, of "v k"] upd show ?case
    by (simp add: pool_calls_append)
qed

text \<open>
  Claim C2. For a pool of capacity \<open>capacity > 0\<close>, adding the entities
  \<open>0, 1, ..., capacity - 1\<close> in this order (distinct IDs, all below the capacity, with any
  values) stores the component of entity \<open>capacity - 1\<close> at dense index \<open>capacity - 1\<close>;
  the pair is in the dense vector, and \<^verbatim>\<open>Has\<close> answers false for that entity, as it does
  for an absent one.
\<close>

theorem sentinel_collision:
  assumes "0 < capacity"
  shows "map call_entity (map (\<lambda>e. AddCall e (v e)) [0..<capacity]) = [0..<capacity] \<and>
         (\<exists>s. pool_calls (SparseSet_new capacity) (map (\<lambda>e. AddCall e (v e)) [0..<capacity]) = Inr s \<and>
           length (m_DenseSet s) = capacity \<and>
           m_DenseSet s ! (capacity - 1) = \<lparr>entity = capacity - 1, data = v (capacity - 1)\<rparr> \<and>
           \<lparr>entity = capacity - 1, data = v (capacity - 1)\<rparr> \<in> set (m_DenseSet s) \<and>
           Has s (capacity - 1) = Inr False)"
proof -
  let ?s = "\<lparr>m_MaxEntities = capacity, m_SparseSet = [0..<capacity],
             m_DenseSet = map (\<lambda>e. \<lparr>entity = e, data = v e\<rparr>) [0..<capacity]\<rparr>"
  from fill_prefix [of capacity capacity v]
  have run: "pool_calls (SparseSet_new capacity) (map (\<lambda>e. AddCall e (v e)) [0..<capacity]) = Inr ?s"
    by simp
  have len: "length (m_DenseSet ?s) = capacity" by simp
  from assms have slot: "m_DenseSet ?s ! (capacity - 1) = \<lparr>entity = capacity - 1, data = v (capacity - 1)\<rparr>"
    by simp
  from assms have mem: "\<lparr>entity = capacity - 1, data = v (capacity - 1)\<rparr> \<in> set (m_DenseSet ?s)"
    by (auto intro!: image_eqI [where x = "capacity - 1"])
  from assms have has: "Has ?s (capacity - 1) = Inr False"
    by (simp add: Has_def sentinel_pos)
  have ids: "map call_entity (map (\<lambda>e. AddCall e (v e)) [0..<capacity]) = [0..<capacity]"
    by (simp add: o_def)
  from run len slot mem has ids show ?thesis by blast
qed

theorem sentinel_collision_witness:
  "(0::nat) < 3 \<and>
   pool_calls (SparseSet_new 3 :: nat SparseSet) [AddCall 0 10, AddCall 1 11, AddCall 2 12] =
     Inr \<lparr>m_MaxEntities = 3, m_SparseSet = [0, 1, 2],
          m_DenseSet = [\<lparr>entity = 0, data = 10\<rparr>, \<lparr>entity = 1, data = 11\<rparr>,
                        \<lparr>entity = 2, data = 12\<rparr>]\<rparr> \<and>
   Has (\<lparr>m_MaxEntities = 3, m_SparseSet = [0, 1, 2],
         m_DenseSet = [\<lparr>entity = 0, data = 10\<rparr>, \<lparr>entity = 1, data = 11\<rparr>,
                       \<lparr>entity = 2, data = 12\<rparr>]\<rparr> :: nat SparseSet) 2 = Inr False"
  (is "_ \<and> pool_calls ?new ?cs = Inr ?S \<and> _")
proof -
  have h: "(0::nat) < 3" by simp
  have cs: "map (\<lambda>e. AddCall e (e + 10)) [0..<3] = ?cs" by (simp add: upt_rec numeral_eq_Suc)
  from sentinel_collision [OF h, of "\<lambda>e. e + 10"] cs obtain s where
    s: "pool_calls (SparseSet_new 3) ?cs = Inr s" and has: "Has s (3 - 1) = Inr False" by auto
  have "pool_calls ?new ?cs = Inr ?S"
    by (simp add: SparseSet_new_def Add_def Has_def sentinel_def size_t_dec_def
        Let_def numeral_eq_Suc)
  with s has h show ?thesis by simp
qed

section \<open>The linking invariant on reachable pools\<close>

lemma Add_below:
  assumes lk: "linked s" and below: "\<forall>x \<in> set (m_DenseSet s). entity x + 1 < m_MaxEntities s"
    and e: "e + 1 < m_MaxEntities s"
  shows "\<exists>s' x. Add s e v = Inr (s', x) \<and> linked s' \<and> m_MaxEntities s' = m_MaxEntities s \<and>
           (\<forall>x \<in> set (m_DenseSet s'). entity x + 1 < m_MaxEntities s)"
proof -
  from e have ec: "e < m_MaxEntities s" by simp
  from linked_Has_total [OF lk ec] obtain b where h: "Has s e = Inr b" ..
  show ?thesis
  proof (cases b)
    case True
    with h have ht: "Has s e = Inr True" by simp
    from Add_present [OF ht linked_present_slot [OF lk ht]] lk below show ?thesis by simp
  next
    case False
    with h have hf: "Has s e = Inr False" by simp
    from below_sentinel_room [OF lk below hf e]
    have room: "length (m_DenseSet s) + 1 < m_MaxEntities s" .
    from Add_absent [OF hf, of v] Add_absent_linked [OF lk hf room, of v] below e
    show ?thesis by simp
  qed
qed

lemma Remove_below:
  assumes lk: "linked s" and below: "\<forall>x \<in> set (m_DenseSet s). entity x + 1 < m_MaxEntities s"
    and e: "e < m_MaxEntities s"
  shows "\<exists>s' b. Remove s e = Inr (s', b) \<and> linked s' \<and> m_MaxEntities s' = m_MaxEntities s \<and>
           (\<forall>x \<in> set (m_DenseSet s'). entity x + 1 < m_MaxEntities s)"
proof -
  from linked_Has_total [OF lk e] obtain b where h: "Has s e = Inr b" ..
  show ?thesis
  proof (cases b)
    case False
    with h e have "Remove s e = Inr (s, False)" by (simp add: Remove_def)
    with lk below show ?thesis by blast
  next
    case True
    with h have ht: "Has s e = Inr True" by simp
    from lk ht obtain s' where rem: "Remove s e = Inr (s', True)" and lk': "linked s'"
      by (rule Remove_linked)
    from Remove_linked_set [OF lk ht rem] below
    have "\<forall>x \<in> set (m_DenseSet s'). entity x + 1 < m_MaxEntities s" by simp
    with rem lk' Remove_MaxEntities [OF rem] show ?thesis by blast
  qed
qed

lemma pool_calls_below:
  assumes "linked s" and "\<forall>x \<in> set (m_DenseSet s). entity x + 1 < m_MaxEntities s"
    and "\<forall>c \<in> set cs. call_entity c + 1 < m_MaxEntities s"
  shows "\<exists>s'. pool_calls s cs = Inr s' \<and> linked s' \<and> m_MaxEntities s' = m_MaxEntities s \<and>
           (\<forall>x \<in> set (m_DenseSet s'). entity x + 1 < m_MaxEntities s)"
  using assms
proof (induction cs arbitrary: s)
  case Nil
  then show ?case by simp
next
  case (Cons c cs)
  show ?case
  proof (cases c)
    case (AddCall e v)
    with Cons.prems have e: "e + 1 < m_MaxEntities s" by simp
    from Add_below [OF Cons.prems(1,2) e, of v] obtain s1 x where
      a: "Add s e v = Inr (s1, x)" and lk: "linked s1" and cap: "m_MaxEntities s1 = m_MaxEntities s"
      and below: "\<forall>x \<in> set (m_DenseSet s1). entity x + 1 < m_MaxEntities s" by blast
    from Cons.prems(3) cap have "\<forall>c \<in> set cs. call_entity c + 1 < m_MaxEntities s1" by simp
    from Cons.IH [OF lk _ this] below cap a AddCall show ?thesis by simp
  next
    case (RemoveCall e)
    with Cons.prems have e: "e < m_MaxEntities s" by simp
    from Remove_below [OF Cons.prems(1,2) e] obtain s1 b where
      a: "Remove s e = Inr (s1, b)" and lk: "linked s1" and cap: "m_MaxEntities s1 = m_MaxEntities s"
      and below: "\<forall>x \<in> set (m_DenseSet s1). entity x + 1 < m_MaxEntities s" by blast
    from Cons.prems(3) cap have "\<forall>c \<in> set cs. call_entity c + 1 < m_MaxEntities s1" by simp
    from Cons.IH [OF lk _ this] below cap a RemoveCall show ?thesis by simp
  qed
qed

text \<open>
  Claim C3 says that the linking invariant holds after any sequence of \<^verbatim>\<open>Add\<close> and
  \<^verbatim>\<open>Remove\<close> calls with entity IDs below the capacity. In a pool of capacity 2, adding
  entities 0 and 1 puts entity 1 at dense index 1, which is the sentinel; \<^verbatim>\<open>Has(1)\<close> is
  then false, a second \<^verbatim>\<open>Add(1, ...)\<close> appends a second entry for entity 1, and the
  dense entry at index 1 is no longer the one that the sparse slot of its entity indexes.
\<close>

theorem linked_reachable_counterexample:
  "pool_calls (SparseSet_new 2 :: nat SparseSet) [AddCall 0 10, AddCall 1 11, AddCall 1 12] =
     Inr \<lparr>m_MaxEntities = 2, m_SparseSet = [0, 2],
          m_DenseSet = [\<lparr>entity = 0, data = 10\<rparr>, \<lparr>entity = 1, data = 11\<rparr>,
                        \<lparr>entity = 1, data = 12\<rparr>]\<rparr> \<and>
   \<not> linked (\<lparr>m_MaxEntities = 2, m_SparseSet = [0, 2],
          m_DenseSet = [\<lparr>entity = 0, data = 10\<rparr>, \<lparr>entity = 1, data = 11\<rparr>,
                        \<lparr>entity = 1, data = 12\<rparr>]\<rparr> :: nat SparseSet)"
proof
  show "pool_calls (SparseSet_new 2 :: nat SparseSet) [AddCall 0 10, AddCall 1 11, AddCall 1 12] =
     Inr \<lparr>m_MaxEntities = 2, m_SparseSet = [0, 2],
          m_DenseSet = [\<lparr>entity = 0, data = 10\<rparr>, \<lparr>entity = 1, data = 11\<rparr>,
                        \<lparr>entity = 1, data = 12\<rparr>]\<rparr>"
    by (simp add: SparseSet_new_def Add_def Has_def sentinel_def size_t_dec_def Let_def
        numeral_eq_Suc)
  show "\<not> linked (\<lparr>m_MaxEntities = 2, m_SparseSet = [0, 2],
          m_DenseSet = [\<lparr>entity = 0, data = 10\<rparr>, \<lparr>entity = 1, data = 11\<rparr>,
                        \<lparr>entity = 1, data = 12\<rparr>]\<rparr> :: nat SparseSet)"
  proof
    assume "linked (\<lparr>m_MaxEntities = 2, m_SparseSet = [0, 2],
          m_DenseSet = [\<lparr>entity = 0, data = 10\<rparr>, \<lparr>entity = 1, data = 11\<rparr>,
                        \<lparr>entity = 1, data = 12\<rparr>]\<rparr> :: nat SparseSet)"
    from linked_denseD [OF this, of 1] show False by simp
  qed
qed

text \<open>
  Claim C3, amended. For every pool state reached from the empty pool by a sequence of
  \<^verbatim>\<open>Add\<close> and \<^verbatim>\<open>Remove\<close> calls whose entity IDs are all below \<open>capacity - 1\<close>, every
  call returns and the linking invariant holds.
\<close>

theorem linked_reachable:
  assumes "\<forall>c \<in> set cs. call_entity c + 1 < capacity"
  shows "\<exists>s. pool_calls (SparseSet_new capacity) cs = Inr s \<and> linked s"
proof -
  have new: "m_MaxEntities (SparseSet_new capacity :: 'a SparseSet) = capacity"
    "m_DenseSet (SparseSet_new capacity :: 'a SparseSet) = []"
    by (simp_all add: SparseSet_new_def)
  from pool_calls_below [OF linked_new, of capacity cs] assms new
  obtain s :: "'a SparseSet" where "pool_calls (SparseSet_new capacity) cs = Inr s" "linked s"
    by auto
  then show ?thesis by blast
qed

theorem linked_reachable_witness:
  "list_all (\<lambda>c. call_entity c + 1 < (4::nat))
     ([AddCall 0 (1, 1), AddCall 1 (2, 2), AddCall 2 (3, 3), RemoveCall 1]
        :: (nat \<times> nat) pool_call list) \<and>
   pool_calls (SparseSet_new 4 :: (nat \<times> nat) SparseSet)
     [AddCall 0 (1, 1), AddCall 1 (2, 2), AddCall 2 (3, 3), RemoveCall 1] =
     Inr \<lparr>m_MaxEntities = 4, m_SparseSet = [0, 3, 1, 3],
          m_DenseSet = [\<lparr>entity = 0, data = (1, 1)\<rparr>, \<lparr>entity = 2, data = (3, 3)\<rparr>]\<rparr> \<and>
   linked (\<lparr>m_MaxEntities = 4, m_SparseSet = [0, 3, 1, 3],
            m_DenseSet = [\<lparr>entity = 0, data = (1, 1)\<rparr>, \<lparr>entity = 2, data = (3, 3)\<rparr>]\<rparr>
              :: (nat \<times> nat) SparseSet)"
  (is "?H \<and> pool_calls ?new ?cs = Inr ?S \<and> _")
proof -
  have h: "\<forall>c \<in> set ?cs. call_entity c + 1 < (4::nat)" by simp
  from linked_reachable [OF h] obtain s :: "(nat \<times> nat) SparseSet"
    where s: "pool_calls (SparseSet_new 4) ?cs = Inr s" and lk: "linked s" by blast
  have "pool_calls ?new ?cs = Inr ?S"
    by (simp add: SparseSet_new_def Add_def Remove_def Has_def sentinel_def size_t_dec_def
        Let_def numeral_eq_Suc)
  with s lk h show ?thesis by simp
qed

section \<open>Issued IDs stay below the sentinel\<close>

lemma entity_calls_Create_Inr:
  assumes "entity_calls r (CreateCall # cs) = Inr (r', ids)"
  obtains r1 i rest where "CreateEntity r = Inr (r1, i)" "entity_calls r1 cs = Inr (r', rest)"
    "ids = i # rest"
proof (cases "CreateEntity r")
  case (Inl err)
  with assms show ?thesis by simp
next
  case (Inr p)
  obtain r1 i where p: "p = (r1, i)" by (cases p)
  show ?thesis
  proof (cases "entity_calls r1 cs")
    case (Inl err)
    with assms Inr p show ?thesis by simp
  next
    case inner: (Inr q)
    obtain r2 rest where q: "q = (r2, rest)" by (cases q)
    from assms Inr p inner q have "r2 = r'" "ids = i # rest" by simp_all
    with that [of r1 i rest] Inr p inner q show ?thesis by simp
  qed
qed

lemma entity_calls_Delete_Inr:
  assumes "entity_calls r (DeleteCall e # cs) = Inr (r', ids)"
  obtains r1 where "DeleteEntity r e = Inr r1" "entity_calls r1 cs = Inr (r', ids)"
proof (cases "DeleteEntity r e")
  case (Inl err)
  with assms show ?thesis by simp
next
  case (Inr r1)
  with assms that [of r1] show ?thesis by simp
qed


lemma CreateEntity_below:
  assumes cap: "ecs_MaxEntities r = M" and free: "\<forall>x \<in> set (m_FreeEntities r). x + 1 < M"
    and nxt: "m_NextEntity r \<le> M" and small: "M \<le> UINT_MAX"
    and c: "CreateEntity r = Inr (r', i)"
  shows "i + 1 < M \<and> ecs_MaxEntities r' = M \<and> m_NextEntity r' \<le> M \<and>
         (\<forall>x \<in> set (m_FreeEntities r'). x + 1 < M)"
proof (cases "m_FreeEntities r = []")
  case True
  from nxt small UINT_MAX_less_SIZE_MAX have "m_NextEntity r < SIZE_MAX" by linarith
  from CreateEntity_fresh [OF True this] c True cap show ?thesis
    by (auto split: if_splits)
next
  case False
  with c have r': "r' = r\<lparr>m_FreeEntities := butlast (m_FreeEntities r)\<rparr>"
    and i: "i = last (m_FreeEntities r)"
    by (simp_all add: CreateEntity_def)
  from False i have "i \<in> set (m_FreeEntities r)" by simp
  moreover have "set (butlast (m_FreeEntities r)) \<subseteq> set (m_FreeEntities r)"
    by (auto dest: in_set_butlastD)
  ultimately show ?thesis using free nxt r' cap by auto
qed

lemma DeleteEntity_fields:
  "DeleteEntity r e = Inr r' \<Longrightarrow>
   ecs_MaxEntities r' = ecs_MaxEntities r \<and> m_NextEntity r' = m_NextEntity r \<and>
   m_FreeEntities r' = m_FreeEntities r @ [e]"
  by (auto simp: DeleteEntity_def split: if_splits sum.splits)

lemma entity_calls_below:
  assumes "ecs_MaxEntities r = M" and "\<forall>x \<in> set (m_FreeEntities r). x + 1 < M"
    and "m_NextEntity r \<le> M" and "M \<le> UINT_MAX"
    and "\<forall>e. DeleteCall e \<in> set cs \<longrightarrow> e + 1 < M"
    and "entity_calls r cs = Inr (r', ids)"
  shows "\<forall>i \<in> set ids. i + 1 < M"
  using assms
proof (induction cs arbitrary: r ids)
  case Nil
  then show ?case by simp
next
  case (Cons c cs)
  have later: "\<forall>e. DeleteCall e \<in> set cs \<longrightarrow> e + 1 < M"
    using Cons.prems(5) by auto
  show ?case
  proof (cases c)
    case CreateCall
    with Cons.prems(6) have "entity_calls r (CreateCall # cs) = Inr (r', ids)" by simp
    then obtain r1 i rest where
      c1: "CreateEntity r = Inr (r1, i)" and run: "entity_calls r1 cs = Inr (r', rest)"
      and ids: "ids = i # rest"
      by (rule entity_calls_Create_Inr)
    from CreateEntity_below [OF Cons.prems(1-4) c1]
    have i: "i + 1 < M" and m: "ecs_MaxEntities r1 = M"
      and n: "m_NextEntity r1 \<le> M"
      and f: "\<forall>x \<in> set (m_FreeEntities r1). x + 1 < M"
      by blast+
    from Cons.IH [OF m f n Cons.prems(4) later run]
    have "\<forall>i \<in> set rest. i + 1 < M" .
    with i ids show ?thesis by simp
  next
    case (DeleteCall e)
    with Cons.prems(6) have "entity_calls r (DeleteCall e # cs) = Inr (r', ids)" by simp
    then obtain r1 where
      d1: "DeleteEntity r e = Inr r1" and run: "entity_calls r1 cs = Inr (r', ids)"
      by (rule entity_calls_Delete_Inr)
    from Cons.prems(5) DeleteCall have e: "e + 1 < M" by auto
    from DeleteEntity_fields [OF d1] Cons.prems(1)
    have m: "ecs_MaxEntities r1 = M" and n1: "m_NextEntity r1 = m_NextEntity r"
      and f1: "m_FreeEntities r1 = m_FreeEntities r @ [e]" by simp_all
    from n1 Cons.prems(3) have n: "m_NextEntity r1 \<le> M" by simp
    from f1 Cons.prems(2) e have f: "\<forall>x \<in> set (m_FreeEntities r1). x + 1 < M" by auto
    from Cons.IH [OF m f n Cons.prems(4) later run] show ?thesis .
  qed
qed

lemma below_sentinel_present:
  assumes lk: "linked s" and below: "\<forall>x \<in> set (m_DenseSet s). entity x + 1 < m_MaxEntities s"
    and x: "x \<in> set (m_DenseSet s)"
  shows "Has s (entity x) = Inr True"
proof -
  from below x have e: "entity x + 1 < m_MaxEntities s" by simp
  from linked_entry_unique [OF lk x] below_sentinel_length [OF lk below] e
  have "m_SparseSet s ! entity x \<noteq> sentinel (m_MaxEntities s)"
    by (simp add: sentinel_pos)
  with e linked_length [OF lk] show ?thesis by (simp add: Has_Inr_iff)
qed

text \<open>
  Claim C10 says that after any sequence of \<^verbatim>\<open>CreateEntity\<close> and \<^verbatim>\<open>DeleteEntity\<close> calls
  every ID returned by \<^verbatim>\<open>CreateEntity\<close> is below \<open>maxEntities - 1\<close>. \<^verbatim>\<open>DeleteEntity\<close>
  accepts every ID below \<open>maxEntities\<close>, issued or not, and puts it on the free list: in
  a registry of capacity 4, \<^verbatim>\<open>DeleteEntity(3)\<close> followed by \<^verbatim>\<open>CreateEntity\<close> returns 3.
\<close>

theorem issued_ids_below_sentinel_counterexample:
  "entity_calls (ECSInstance_new 4 :: (string, nat) ECSInstance) [DeleteCall 3, CreateCall] =
     Inr (\<lparr>ecs_MaxEntities = 4, m_NextEntity = 0, m_FreeEntities = [], m_ComponentPools = []\<rparr>,
          [3]) \<and>
   \<not> (3::nat) < 4 - 1"
  by (simp add: ECSInstance_new_def DeleteEntity_def CreateEntity_def)

text \<open>
  Claim C10, amended. For a new registry of capacity \<open>maxEntities\<close> (an
  \<^verbatim>\<open>unsigned int\<close>) and every sequence of \<^verbatim>\<open>CreateEntity\<close> and \<^verbatim>\<open>DeleteEntity\<close> calls in
  which \<^verbatim>\<open>DeleteEntity\<close> is only called with IDs below \<open>maxEntities - 1\<close>, every ID that
  \<^verbatim>\<open>CreateEntity\<close> returns is below \<open>maxEntities - 1\<close>; so the ID \<open>maxEntities - 1\<close> is
  never issued and at most \<open>maxEntities - 1\<close> distinct IDs are issued. A pool reached
  from the empty pool by \<^verbatim>\<open>Add\<close> and \<^verbatim>\<open>Remove\<close> calls with IDs below \<open>capacity - 1\<close>
  holds at most \<open>capacity - 1\<close> entries, so dense index \<open>capacity - 1\<close> is never filled,
  and \<^verbatim>\<open>Has\<close> is true for the entity of every dense entry.
\<close>

theorem issued_ids_below_sentinel:
  "(maxEntities \<le> UINT_MAX \<and> (\<forall>e. DeleteCall e \<in> set cs \<longrightarrow> e + 1 < maxEntities) \<and>
    entity_calls (ECSInstance_new maxEntities) cs = Inr (r, ids)
    \<longrightarrow> (\<forall>i \<in> set ids. i + 1 < maxEntities) \<and> maxEntities - 1 \<notin> set ids \<and>
        card (set ids) \<le> maxEntities - 1) \<and>
   ((\<forall>c \<in> set pcs. call_entity c + 1 < capacity)
    \<longrightarrow> (\<exists>s. pool_calls (SparseSet_new capacity) pcs = Inr s \<and>
             length (m_DenseSet s) \<le> capacity - 1 \<and>
             (\<forall>x \<in> set (m_DenseSet s). Has s (entity x) = Inr True)))"
proof (intro conjI impI)
  assume a: "maxEntities \<le> UINT_MAX \<and> (\<forall>e. DeleteCall e \<in> set cs \<longrightarrow> e + 1 < maxEntities) \<and>
    entity_calls (ECSInstance_new maxEntities) cs = Inr (r, ids)"
  have fresh: "ecs_MaxEntities (ECSInstance_new maxEntities :: ('a, 'b) ECSInstance) = maxEntities"
    "\<forall>x \<in> set (m_FreeEntities (ECSInstance_new maxEntities :: ('a, 'b) ECSInstance)). x + 1 < maxEntities"
    "m_NextEntity (ECSInstance_new maxEntities :: ('a, 'b) ECSInstance) \<le> maxEntities"
    by (simp_all add: ECSInstance_new_def)
  from a have a1: "maxEntities \<le> UINT_MAX"
    and a2: "\<forall>e. DeleteCall e \<in> set cs \<longrightarrow> e + 1 < maxEntities"
    and a3: "entity_calls (ECSInstance_new maxEntities) cs = Inr (r, ids)" by blast+
  from entity_calls_below [OF fresh a1 a2 a3]
  have all: "\<forall>i \<in> set ids. i + 1 < maxEntities" .
  then show "\<forall>i \<in> set ids. i + 1 < maxEntities" .
  from all show "maxEntities - 1 \<notin> set ids" by auto
  from all have "set ids \<subseteq> {..<maxEntities - 1}" by auto
  then have "card (set ids) \<le> card {..<maxEntities - 1}" by (intro card_mono) simp_all
  then show "card (set ids) \<le> maxEntities - 1" by simp
next
  assume b: "\<forall>c \<in> set pcs. call_entity c + 1 < capacity"
  have new: "m_MaxEntities (SparseSet_new capacity :: 'c SparseSet) = capacity"
    "m_DenseSet (SparseSet_new capacity :: 'c SparseSet) = []"
    by (simp_all add: SparseSet_new_def)
  from pool_calls_below [OF linked_new, of capacity pcs] b new
  obtain s :: "'c SparseSet" where run: "pool_calls (SparseSet_new capacity) pcs = Inr s"
    and lk: "linked s" and cap: "m_MaxEntities s = capacity"
    and below: "\<forall>x \<in> set (m_DenseSet s). entity x + 1 < m_MaxEntities s"
    by auto
  from below_sentinel_length [OF lk below] cap have "length (m_DenseSet s) \<le> capacity - 1" by simp
  moreover have "\<forall>x \<in> set (m_DenseSet s). Has s (entity x) = Inr True"
    using below_sentinel_present [OF lk below] by blast
  ultimately show "\<exists>s. pool_calls (SparseSet_new capacity) pcs = Inr s \<and>
             length (m_DenseSet s) \<le> capacity - 1 \<and>
             (\<forall>x \<in> set (m_DenseSet s). Has s (entity x) = Inr True)"
    using run by blast
qed

theorem issued_ids_below_sentinel_witness:
  "(4::nat) \<le> UINT_MAX \<and>
   entity_calls (ECSInstance_new 4 :: (string, nat) ECSInstance)
     [CreateCall, CreateCall, DeleteCall 0, CreateCall, CreateCall] =
     Inr (\<lparr>ecs_MaxEntities = 4, m_NextEntity = 3, m_FreeEntities = [], m_ComponentPools = []\<rparr>,
          [0, 1, 0, 2]) \<and>
   card (set [0, 1, 0, 2::nat]) \<le> 4 - 1 \<and>
   list_all (\<lambda>c. call_entity c + 1 < (4::nat))
     ([AddCall 0 10, AddCall 2 12, RemoveCall 0, AddCall 1 11] :: nat pool_call list) \<and>
   pool_calls (SparseSet_new 4 :: nat SparseSet)
     [AddCall 0 10, AddCall 2 12, RemoveCall 0, AddCall 1 11] =
     Inr \<lparr>m_MaxEntities = 4, m_SparseSet = [3, 1, 0, 3],
          m_DenseSet = [\<lparr>entity = 2, data = 12\<rparr>, \<lparr>entity = 1, data = 11\<rparr>]\<rparr> \<and>
   Has (\<lparr>m_MaxEntities = 4, m_SparseSet = [3, 1, 0, 3],
         m_DenseSet = [\<lparr>entity = 2, data = 12\<rparr>, \<lparr>entity = 1, data = 11\<rparr>]\<rparr> :: nat SparseSet) 1 =
     Inr True"
  (is "_ \<and> entity_calls ?new ?cs = Inr (?r, ?ids) \<and> _ \<and> _ \<and> pool_calls ?pnew ?pcs = Inr ?s \<and> _")
proof -
  have h1: "(4::nat) \<le> UINT_MAX" by (simp add: UINT_MAX_def)
  have h2: "\<forall>e. DeleteCall e \<in> set ?cs \<longrightarrow> e + 1 < (4::nat)" by simp
  have h3: "entity_calls ?new ?cs = Inr (?r, ?ids)"
    by (simp add: ECSInstance_new_def CreateEntity_def DeleteEntity_def size_t_inc_def SIZE_MAX_def)
  have h4: "\<forall>c \<in> set ?pcs. call_entity c + 1 < (4::nat)" by simp
  have run: "pool_calls ?pnew ?pcs = Inr ?s"
    by (simp add: SparseSet_new_def Add_def Remove_def Has_def sentinel_def size_t_dec_def
        Let_def numeral_eq_Suc)
  from issued_ids_below_sentinel [of 4 ?cs ?r ?ids ?pcs 4] h1 h2 h3 h4
  have ids: "card (set ?ids) \<le> 4 - 1"
    and pool: "\<exists>s. pool_calls ?pnew ?pcs = Inr s \<and> length (m_DenseSet s) \<le> 4 - 1 \<and>
             (\<forall>x \<in> set (m_DenseSet s). Has s (entity x) = Inr True)"
    by blast+
  from pool run have "\<forall>x \<in> set (m_DenseSet ?s). Has ?s (entity x) = Inr True" by simp
  then have "Has ?s 1 = Inr True" by simp
  with h1 h3 h4 run ids show ?thesis by simp
qed

section \<open>Cascade delete\<close>

lemma Remove_cascade:
  assumes lk: "linked p" and room: "length (m_DenseSet p) < m_MaxEntities p"
    and e: "e < m_MaxEntities p"
  shows "\<exists>p' b. Remove p e = Inr (p', b) \<and> e \<notin> entity ` set (m_DenseSet p')"
proof -
  from linked_Has_total [OF lk e] obtain b where h: "Has p e = Inr b" ..
  show ?thesis
  proof (cases b)
    case False
    with h e have rem: "Remove p e = Inr (p, False)" by (simp add: Remove_def)
    from h False e have abs: "m_SparseSet p ! e = m_MaxEntities p - 1"
      by (simp add: Has_Inr_iff sentinel_pos)
    have "e \<notin> entity ` set (m_DenseSet p)"
    proof
      assume "e \<in> entity ` set (m_DenseSet p)"
      then obtain x where x: "x \<in> set (m_DenseSet p)" and ex: "entity x = e" by auto
      from linked_entry_unique [OF lk x] ex abs
      have "m_MaxEntities p - 1 < length (m_DenseSet p)" by simp
      with room show False by linarith
    qed
    with rem show ?thesis by blast
  next
    case True
    with h have ht: "Has p e = Inr True" by simp
    from lk ht obtain p' where rem: "Remove p e = Inr (p', True)"
      and ent: "entity (m_DenseSet p ! (m_SparseSet p ! e)) = e"
      by (rule Remove_linked)
    have "e \<notin> entity ` set (m_DenseSet p')"
    proof
      assume "e \<in> entity ` set (m_DenseSet p')"
      then obtain x where x: "x \<in> set (m_DenseSet p')" and ex: "entity x = e" by auto
      from x Remove_linked_set [OF lk ht rem] have xin: "x \<in> set (m_DenseSet p)"
        and xne: "x \<noteq> m_DenseSet p ! (m_SparseSet p ! e)" by simp_all
      from linked_entry_unique [OF lk xin] ex xne show False by simp
    qed
    with rem show ?thesis by blast
  qed
qed

lemma RemoveEntity_pools_cascade:
  assumes "\<forall>(T, p) \<in> set ps. linked p \<and> m_MaxEntities p = M \<and> length (m_DenseSet p) < m_MaxEntities p"
    and "e < M"
  shows "\<exists>ps'. RemoveEntity_pools ps e = Inr ps' \<and>
           (\<forall>(T, p') \<in> set ps'. e \<notin> entity ` set (m_DenseSet p'))"
  using assms
proof (induction ps)
  case Nil
  then show ?case by simp
next
  case (Cons a ps)
  obtain T p where a: "a = (T, p)" by (cases a)
  from Cons.prems a have lk: "linked p" and cap: "m_MaxEntities p = M"
    and room: "length (m_DenseSet p) < m_MaxEntities p" by simp_all
  from Cons.prems(2) cap have e: "e < m_MaxEntities p" by simp
  from Remove_cascade [OF lk room e] obtain p' b where
    rem: "Remove p e = Inr (p', b)" and gone: "e \<notin> entity ` set (m_DenseSet p')" by blast
  from Cons.prems have "\<forall>(T, p) \<in> set ps. linked p \<and> m_MaxEntities p = M \<and>
      length (m_DenseSet p) < m_MaxEntities p" by simp
  from Cons.IH [OF this Cons.prems(2)] obtain ps' where
    rest: "RemoveEntity_pools ps e = Inr ps'"
    and gone': "\<forall>(T, p') \<in> set ps'. e \<notin> entity ` set (m_DenseSet p')" by blast
  from a rem rest have "RemoveEntity_pools (a # ps) e = Inr ((T, p') # ps')" by simp
  moreover from gone gone' have "\<forall>(T, q) \<in> set ((T, p') # ps'). e \<notin> entity ` set (m_DenseSet q)"
    by simp
  ultimately show ?case by blast
qed

lemma DeleteEntity_purges:
  assumes "DeleteEntity r e = Inr r1"
  shows "map fst (m_ComponentPools r1) = map fst (m_ComponentPools r) \<and>
         (\<forall>T. HasComponent r1 T e = Inr False)"
proof -
  from assms have e: "e < ecs_MaxEntities r"
    by (auto simp: DeleteEntity_def split: if_splits)
  with assms obtain ps where ps: "RemoveEntity_pools (m_ComponentPools r) e = Inr ps"
    and r1: "r1 = r\<lparr>m_FreeEntities := m_FreeEntities r @ [e], m_ComponentPools := ps\<rparr>"
    by (auto simp: DeleteEntity_def split: sum.splits)
  have "HasComponent r1 T e = Inr False" for T
  proof (cases "map_of ps T")
    case None
    with e r1 show ?thesis by (simp add: HasComponent_def TryGetPool_def)
  next
    case (Some p')
    then have "(T, p') \<in> set ps" by (rule map_of_SomeD)
    with RemoveEntity_pools_result [OF ps] have "Has p' e = Inr False" by auto
    with Some e r1 show ?thesis by (simp add: HasComponent_def TryGetPool_def)
  qed
  with RemoveEntity_pools_result [OF ps] r1 show ?thesis by simp
qed

text \<open>
  Claim C7 says that after \<^verbatim>\<open>DeleteEntity(e)\<close>, for every registry state and every
  \<open>e < maxEntities\<close>, the pair of \<open>e\<close> appears in no pool's dense vector. In a registry
  of capacity 2, \<^verbatim>\<open>AddComponent\<close> for the entities 0 and 1 stores entity 1 at dense
  index 1, the sentinel. \<^verbatim>\<open>DeleteEntity(1)\<close> then finds \<^verbatim>\<open>Has(1)\<close> false in the pool,
  removes nothing, and the pair of entity 1 stays in the dense vector.
\<close>

theorem DeleteEntity_cascade_counterexample:
  "AddComponent (ECSInstance_new 2 :: (string, nat) ECSInstance) ''Position'' 0 10 =
     Inr (\<lparr>ecs_MaxEntities = 2, m_NextEntity = 0, m_FreeEntities = [],
           m_ComponentPools =
             [(''Position'', \<lparr>m_MaxEntities = 2, m_SparseSet = [0, 1],
                               m_DenseSet = [\<lparr>entity = 0, data = 10\<rparr>]\<rparr>)]\<rparr>, 10) \<and>
   AddComponent
     (\<lparr>ecs_MaxEntities = 2, m_NextEntity = 0, m_FreeEntities = [],
       m_ComponentPools =
         [(''Position'', \<lparr>m_MaxEntities = 2, m_SparseSet = [0, 1],
                           m_DenseSet = [\<lparr>entity = 0, data = 10\<rparr>]\<rparr>)]\<rparr>
      :: (string, nat) ECSInstance) ''Position'' 1 11 =
     Inr (\<lparr>ecs_MaxEntities = 2, m_NextEntity = 0, m_FreeEntities = [],
           m_ComponentPools =
             [(''Position'', \<lparr>m_MaxEntities = 2, m_SparseSet = [0, 1],
                               m_DenseSet = [\<lparr>entity = 0, data = 10\<rparr>,
                                             \<lparr>entity = 1, data = 11\<rparr>]\<rparr>)]\<rparr>, 11) \<and>
   DeleteEntity
     (\<lparr>ecs_MaxEntities = 2, m_NextEntity = 0, m_FreeEntities = [],
       m_ComponentPools =
         [(''Position'', \<lparr>m_MaxEntities = 2, m_SparseSet = [0, 1],
                           m_DenseSet = [\<lparr>entity = 0, data = 10\<rparr>,
                                         \<lparr>entity = 1, data = 11\<rparr>]\<rparr>)]\<rparr>
      :: (string, nat) ECSInstance) 1 =
     Inr \<lparr>ecs_MaxEntities = 2, m_NextEntity = 0, m_FreeEntities = [1],
          m_ComponentPools =
            [(''Position'', \<lparr>m_MaxEntities = 2, m_SparseSet = [0, 1],
                              m_DenseSet = [\<lparr>entity = 0, data = 10\<rparr>,
                                            \<lparr>entity = 1, data = 11\<rparr>]\<rparr>)]\<rparr> \<and>
   1 \<in> entity ` set (m_DenseSet
     (\<lparr>m_MaxEntities = 2, m_SparseSet = [0, 1],
       m_DenseSet = [\<lparr>entity = 0, data = 10\<rparr>, \<lparr>entity = 1, data = 11\<rparr>]\<rparr> :: nat SparseSet))"
  by (simp add: AddComponent_def GetOrCreatePool_def ECSInstance_new_def SparseSet_new_def
      Add_def Has_def sentinel_def size_t_dec_def Let_def numeral_eq_Suc DeleteEntity_def
      Remove_def)

text \<open>
  Claim C7, amended. Whenever \<^verbatim>\<open>DeleteEntity(e)\<close> returns, the registry has the same
  pools (the same component types in the same order) as before, and \<^verbatim>\<open>HasComponent<T>(e)\<close>
  is false for every component type \<open>T\<close>. When every pool of the registry satisfies the
  linking invariant, has the capacity of the registry and holds fewer entries than its
  capacity (no entry at dense index \<open>maxEntities - 1\<close>), then for every
  \<open>e < maxEntities\<close> \<^verbatim>\<open>DeleteEntity(e)\<close> returns and the pair of \<open>e\<close> appears in no
  pool's dense vector.
\<close>

theorem DeleteEntity_cascade:
  "(DeleteEntity r e = Inr r' \<longrightarrow>
      map fst (m_ComponentPools r') = map fst (m_ComponentPools r) \<and>
      (\<forall>T. HasComponent r' T e = Inr False)) \<and>
   (e < ecs_MaxEntities r \<and>
    (\<forall>(T, p) \<in> set (m_ComponentPools r).
        linked p \<and> m_MaxEntities p = ecs_MaxEntities r \<and>
        length (m_DenseSet p) < m_MaxEntities p)
    \<longrightarrow> (\<exists>r''. DeleteEntity r e = Inr r'' \<and>
           (\<forall>(T, p') \<in> set (m_ComponentPools r''). e \<notin> entity ` set (m_DenseSet p'))))"
proof (intro conjI impI)
  assume d: "DeleteEntity r e = Inr r'"
  from DeleteEntity_purges [OF d]
  show "map fst (m_ComponentPools r') = map fst (m_ComponentPools r)"
    and "\<forall>T. HasComponent r' T e = Inr False" by simp_all
next
  assume a: "e < ecs_MaxEntities r \<and>
    (\<forall>(T, p) \<in> set (m_ComponentPools r).
        linked p \<and> m_MaxEntities p = ecs_MaxEntities r \<and>
        length (m_DenseSet p) < m_MaxEntities p)"
  then have e: "e < ecs_MaxEntities r" and
    ok: "\<forall>(T, p) \<in> set (m_ComponentPools r).
        linked p \<and> m_MaxEntities p = ecs_MaxEntities r \<and>
        length (m_DenseSet p) < m_MaxEntities p" by blast+
  from RemoveEntity_pools_cascade [OF ok e] obtain ps' where
    run: "RemoveEntity_pools (m_ComponentPools r) e = Inr ps'"
    and gone: "\<forall>(T, p') \<in> set ps'. e \<notin> entity ` set (m_DenseSet p')" by blast
  from e run have "DeleteEntity r e =
      Inr (r\<lparr>m_FreeEntities := m_FreeEntities r @ [e], m_ComponentPools := ps'\<rparr>)"
    by (simp add: DeleteEntity_def)
  with gone show "\<exists>r''. DeleteEntity r e = Inr r'' \<and>
           (\<forall>(T, p') \<in> set (m_ComponentPools r''). e \<notin> entity ` set (m_DenseSet p'))"
    by simp
qed

theorem DeleteEntity_cascade_witness:
  "DeleteEntity
     (\<lparr>ecs_MaxEntities = 4, m_NextEntity = 3, m_FreeEntities = [],
       m_ComponentPools =
         [(''Position'',
           \<lparr>m_MaxEntities = 4, m_SparseSet = [0, 1, 2, 3],
            m_DenseSet = [\<lparr>entity = 0, data = 10\<rparr>, \<lparr>entity = 1, data = 11\<rparr>,
                          \<lparr>entity = 2, data = 12\<rparr>]\<rparr>),
          (''Velocity'',
           \<lparr>m_MaxEntities = 4, m_SparseSet = [3, 0, 3, 3],
            m_DenseSet = [\<lparr>entity = 1, data = 21\<rparr>]\<rparr>)]\<rparr>
      :: (string, nat) ECSInstance) 1 =
   Inr \<lparr>ecs_MaxEntities = 4, m_NextEntity = 3, m_FreeEntities = [1],
        m_ComponentPools =
          [(''Position'',
            \<lparr>m_MaxEntities = 4, m_SparseSet = [0, 3, 1, 3],
             m_DenseSet = [\<lparr>entity = 0, data = 10\<rparr>, \<lparr>entity = 2, data = 12\<rparr>]\<rparr>),
           (''Velocity'',
            \<lparr>m_MaxEntities = 4, m_SparseSet = [3, 3, 3, 3], m_DenseSet = []\<rparr>)]\<rparr> \<and>
   HasComponent
     (\<lparr>ecs_MaxEntities = 4, m_NextEntity = 3, m_FreeEntities = [1],
        m_ComponentPools =
          [(''Position'',
            \<lparr>m_MaxEntities = 4, m_SparseSet = [0, 3, 1, 3],
             m_DenseSet = [\<lparr>entity = 0, data = 10\<rparr>, \<lparr>entity = 2, data = 12\<rparr>]\<rparr>),
           (''Velocity'',
            \<lparr>m_MaxEntities = 4, m_SparseSet = [3, 3, 3, 3], m_DenseSet = []\<rparr>)]\<rparr>
      :: (string, nat) ECSInstance) ''Position'' 1 = Inr False \<and>
   1 \<notin> entity ` set (m_DenseSet
     (\<lparr>m_MaxEntities = 4, m_SparseSet = [0, 3, 1, 3],
       m_DenseSet = [\<lparr>entity = 0, data = 10\<rparr>, \<lparr>entity = 2, data = 12\<rparr>]\<rparr> :: nat SparseSet))"
  (is "DeleteEntity ?r 1 = Inr ?r' \<and> _ \<and> 1 \<notin> entity ` set (m_DenseSet ?p')")
proof -
  have d: "DeleteEntity ?r 1 = Inr ?r'"
    by (simp add: DeleteEntity_def Remove_def Has_def sentinel_def size_t_dec_def Let_def)
  have lk1: "linked (\<lparr>m_MaxEntities = 4, m_SparseSet = [0, 1, 2, 3],
            m_DenseSet = [\<lparr>entity = 0, data = 10\<rparr>, \<lparr>entity = 1, data = 11\<rparr>,
                          \<lparr>entity = 2, data = 12\<rparr>]\<rparr> :: nat SparseSet)"
    by (simp add: linked_def sentinel_def size_t_dec_def nth_Cons' Ball_def)
  have lk2: "linked (\<lparr>m_MaxEntities = 4, m_SparseSet = [3, 0, 3, 3],
            m_DenseSet = [\<lparr>entity = 1, data = 21\<rparr>]\<rparr> :: nat SparseSet)"
    by (simp add: linked_def sentinel_def size_t_dec_def nth_Cons' Ball_def)
  have ok: "(1::nat) < ecs_MaxEntities ?r \<and>
    (\<forall>(T, p) \<in> set (m_ComponentPools ?r).
        linked p \<and> m_MaxEntities p = ecs_MaxEntities ?r \<and>
        length (m_DenseSet p) < m_MaxEntities p)"
    using lk1 lk2 by simp
  from DeleteEntity_cascade [of ?r 1 ?r'] d ok
  have has: "\<forall>T. HasComponent ?r' T 1 = Inr False"
    and gone: "\<exists>r''. DeleteEntity ?r 1 = Inr r'' \<and>
           (\<forall>(T, p') \<in> set (m_ComponentPools r''). 1 \<notin> entity ` set (m_DenseSet p'))"
    by blast+
  from gone d have "\<forall>(T, p') \<in> set (m_ComponentPools ?r'). 1 \<notin> entity ` set (m_DenseSet p')"
    by simp
  then have "1 \<notin> entity ` set (m_DenseSet ?p')" by simp
  with d has show ?thesis by blast
qed

section \<open>Round trip of a component\<close>

lemma GetOrCreatePool_MaxEntities:
  "ecs_MaxEntities (fst (GetOrCreatePool r T)) = ecs_MaxEntities r"
  by (simp add: GetOrCreatePool_def Let_def split: option.splits)

lemma set_pool_lookup:
  "TryGetPool (r\<lparr>m_ComponentPools := AList.update T p (m_ComponentPools r)\<rparr>) T = Some p"
  by (simp add: TryGetPool_def update_conv')

text \<open>
  Claim C5 says that for every \<open>e < maxEntities\<close> and value \<open>v\<close>,
  \<^verbatim>\<open>AddComponent<T>(e, v)\<close> followed by \<^verbatim>\<open>GetComponent<T>(e)\<close> returns \<open>v\<close>, and that
  \<^verbatim>\<open>HasComponent<T>(e)\<close> is true right after the \<^verbatim>\<open>AddComponent\<close>. First, when \<open>e\<close>
  already holds a component, \<^verbatim>\<open>AddComponent\<close> keeps the stored value: entity 0 holds
  \<open>(1, 1)\<close>, and after \<^verbatim>\<open>AddComponent(0, (9, 9))\<close> \<^verbatim>\<open>GetComponent(0)\<close> returns \<open>(1, 1)\<close>.
  Second, in a registry of capacity 2 whose pool holds entity 0, \<^verbatim>\<open>AddComponent(1, (2, 2))\<close>
  stores the value at dense index 1, the sentinel: \<^verbatim>\<open>HasComponent(1)\<close> is false right
  after the call and \<^verbatim>\<open>GetComponent(1)\<close> fails its assertion.
\<close>

theorem AddComponent_roundtrip_counterexample:
  "AddComponent
     (\<lparr>ecs_MaxEntities = 4, m_NextEntity = 1, m_FreeEntities = [],
       m_ComponentPools =
         [(''Position'', \<lparr>m_MaxEntities = 4, m_SparseSet = [0, 3, 3, 3],
                           m_DenseSet = [\<lparr>entity = 0, data = (1, 1)\<rparr>]\<rparr>)]\<rparr>
      :: (string, nat \<times> nat) ECSInstance) ''Position'' 0 (9, 9) =
     Inr (\<lparr>ecs_MaxEntities = 4, m_NextEntity = 1, m_FreeEntities = [],
           m_ComponentPools =
             [(''Position'', \<lparr>m_MaxEntities = 4, m_SparseSet = [0, 3, 3, 3],
                               m_DenseSet = [\<lparr>entity = 0, data = (1, 1)\<rparr>]\<rparr>)]\<rparr>, (1, 1)) \<and>
   GetComponent
     (\<lparr>ecs_MaxEntities = 4, m_NextEntity = 1, m_FreeEntities = [],
       m_ComponentPools =
         [(''Position'', \<lparr>m_MaxEntities = 4, m_SparseSet = [0, 3, 3, 3],
                           m_DenseSet = [\<lparr>entity = 0, data = (1, 1)\<rparr>]\<rparr>)]\<rparr>
      :: (string, nat \<times> nat) ECSInstance) ''Position'' 0 = Inr (1, 1) \<and>
   AddComponent
     (\<lparr>ecs_MaxEntities = 2, m_NextEntity = 1, m_FreeEntities = [],
       m_ComponentPools =
         [(''Position'', \<lparr>m_MaxEntities = 2, m_SparseSet = [0, 1],
                           m_DenseSet = [\<lparr>entity = 0, data = (1, 1)\<rparr>]\<rparr>)]\<rparr>
      :: (string, nat \<times> nat) ECSInstance) ''Position'' 1 (2, 2) =
     Inr (\<lparr>ecs_MaxEntities = 2, m_NextEntity = 1, m_FreeEntities = [],
           m_ComponentPools =
             [(''Position'', \<lparr>m_MaxEntities = 2, m_SparseSet = [0, 1],
                               m_DenseSet = [\<lparr>entity = 0, data = (1, 1)\<rparr>,
                                             \<lparr>entity = 1, data = (2, 2)\<rparr>]\<rparr>)]\<rparr>, (2, 2)) \<and>
   HasComponent
     (\<lparr>ecs_MaxEntities = 2, m_NextEntity = 1, m_FreeEntities = [],
       m_ComponentPools =
         [(''Position'', \<lparr>m_MaxEntities = 2, m_SparseSet = [0, 1],
                           m_DenseSet = [\<lparr>entity = 0, data = (1, 1)\<rparr>,
                                         \<lparr>entity = 1, data = (2, 2)\<rparr>]\<rparr>)]\<rparr>
      :: (string, nat \<times> nat) ECSInstance) ''Position'' 1 = Inr False \<and>
   GetComponent
     (\<lparr>ecs_MaxEntities = 2, m_NextEntity = 1, m_FreeEntities = [],
       m_ComponentPools =
         [(''Position'', \<lparr>m_MaxEntities = 2, m_SparseSet = [0, 1],
                           m_DenseSet = [\<lparr>entity = 0, data = (1, 1)\<rparr>,
                                         \<lparr>entity = 1, data = (2, 2)\<rparr>]\<rparr>)]\<rparr>
      :: (string, nat \<times> nat) ECSInstance) ''Position'' 1 = Inl AssertionFailed"
  by (simp add: AddComponent_def GetComponent_def HasComponent_def TryGetPool_def
      GetOrCreatePool_def Add_def Get_def Has_def sentinel_def size_t_dec_def Let_def)

text \<open>
  Claim C5, amended. Let \<open>e < maxEntities\<close> have no component of type \<open>T\<close>
  (\<^verbatim>\<open>HasComponent<T>(e)\<close> is false), and let the pool of \<open>T\<close> (the new, empty pool when
  none exists yet) hold a number of entries other than the sentinel \<open>maxEntities - 1\<close>, so
  that the new entry is not stored at the sentinel index. Then \<^verbatim>\<open>AddComponent<T>(e, v)\<close>
  returns \<open>v\<close>; \<^verbatim>\<open>GetComponent<T>(e)\<close> right after it returns \<open>v\<close> and
  \<^verbatim>\<open>HasComponent<T>(e)\<close> is true; a subsequent \<^verbatim>\<open>RemoveComponent<T>(e)\<close> returns true, and
  right after it \<^verbatim>\<open>HasComponent<T>(e)\<close> is false.
\<close>

theorem AddComponent_roundtrip:
  assumes e: "e < ecs_MaxEntities r"
    and absent: "HasComponent r T e = Inr False"
    and slot: "length (m_DenseSet (snd (GetOrCreatePool r T))) \<noteq>
               sentinel (m_MaxEntities (snd (GetOrCreatePool r T)))"
  shows "\<exists>r1. AddComponent r T e v = Inr (r1, v) \<and>
           GetComponent r1 T e = Inr v \<and>
           HasComponent r1 T e = Inr True \<and>
           (\<exists>r2. RemoveComponent r1 T e = Inr (r2, True) \<and> HasComponent r2 T e = Inr False)"
proof -
  let ?r' = "fst (GetOrCreatePool r T)" and ?pool = "snd (GetOrCreatePool r T)"
  let ?n = "length (m_DenseSet ?pool)"
  let ?pool1 = "?pool\<lparr>m_SparseSet := (m_SparseSet ?pool)[e := ?n],
                        m_DenseSet := m_DenseSet ?pool @ [\<lparr>entity = e, data = v\<rparr>]\<rparr>"
  let ?r1 = "?r'\<lparr>m_ComponentPools := AList.update T ?pool1 (m_ComponentPools ?r')\<rparr>"
  from absent e have ha: "Has ?pool e = Inr False"
    by (simp add: HasComponent_GetOrCreatePool)
  then have ec: "e < m_MaxEntities ?pool" and el: "e < length (m_SparseSet ?pool)"
    by (simp_all add: Has_Inr_iff)
  from Add_absent [OF ha, of v] have add: "Add ?pool e v = Inr (?pool1, v)" .
  have g: "GetOrCreatePool r T = (?r', ?pool)" by simp
  from e add have a: "AddComponent r T e v = Inr (?r1, v)"
    unfolding AddComponent_def by (simp add: case_prod_beta)
  have m1: "ecs_MaxEntities ?r1 = ecs_MaxEntities r"
    by (simp add: GetOrCreatePool_MaxEntities)
  have look1: "TryGetPool ?r1 T = Some ?pool1" by (rule set_pool_lookup)
  from ec el slot have h1: "Has ?pool1 e = Inr True"
    by (simp add: Has_Inr_iff)
  from el have idx: "m_SparseSet ?pool1 ! e < length (m_DenseSet ?pool1)"
    and val: "data (m_DenseSet ?pool1 ! (m_SparseSet ?pool1 ! e)) = v" by simp_all
  from Get_present [OF h1 idx] val have get1: "Get ?pool1 e = Inr v" by simp
  from e m1 look1 h1 get1 have get: "GetComponent ?r1 T e = Inr v"
    by (simp add: GetComponent_def)
  from e m1 look1 h1 have has: "HasComponent ?r1 T e = Inr True"
    by (simp add: HasComponent_def)
  from el have moved: "entity (last (m_DenseSet ?pool1)) < length (m_SparseSet ?pool1)" by simp
  from Remove_present [OF h1 idx moved] obtain pool2 where
    rem: "Remove ?pool1 e = Inr (pool2, True)" by blast
  let ?r2 = "?r1\<lparr>m_ComponentPools := AList.update T pool2 (m_ComponentPools ?r1)\<rparr>"
  from e m1 look1 rem have rc: "RemoveComponent ?r1 T e = Inr (?r2, True)"
    by (simp add: RemoveComponent_def)
  have look2: "TryGetPool ?r2 T = Some pool2" by (rule set_pool_lookup)
  from Remove_Has_False [OF rem] e m1 look2 have gone: "HasComponent ?r2 T e = Inr False"
    by (simp add: HasComponent_def)
  from a get has rc gone show ?thesis by blast
qed

theorem AddComponent_roundtrip_witness:
  "HasComponent (ECSInstance_new 4 :: (string, nat \<times> nat) ECSInstance) ''Position'' 0 = Inr False \<and>
   AddComponent (ECSInstance_new 4 :: (string, nat \<times> nat) ECSInstance) ''Position'' 0 (1, 1) =
     Inr (\<lparr>ecs_MaxEntities = 4, m_NextEntity = 0, m_FreeEntities = [],
           m_ComponentPools =
             [(''Position'', \<lparr>m_MaxEntities = 4, m_SparseSet = [0, 3, 3, 3],
                               m_DenseSet = [\<lparr>entity = 0, data = (1, 1)\<rparr>]\<rparr>)]\<rparr>, (1, 1)) \<and>
   GetComponent
     (\<lparr>ecs_MaxEntities = 4, m_NextEntity = 0, m_FreeEntities = [],
       m_ComponentPools =
         [(''Position'', \<lparr>m_MaxEntities = 4, m_SparseSet = [0, 3, 3, 3],
                           m_DenseSet = [\<lparr>entity = 0, data = (1, 1)\<rparr>]\<rparr>)]\<rparr>
      :: (string, nat \<times> nat) ECSInstance) ''Position'' 0 = Inr (1, 1) \<and>
   HasComponent
     (\<lparr>ecs_MaxEntities = 4, m_NextEntity = 0, m_FreeEntities = [],
       m_ComponentPools =
         [(''Position'', \<lparr>m_MaxEntities = 4, m_SparseSet = [0, 3, 3, 3],
                           m_DenseSet = [\<lparr>entity = 0, data = (1, 1)\<rparr>]\<rparr>)]\<rparr>
      :: (string, nat \<times> nat) ECSInstance) ''Position'' 0 = Inr True \<and>
   RemoveComponent
     (\<lparr>ecs_MaxEntities = 4, m_NextEntity = 0, m_FreeEntities = [],
       m_ComponentPools =
         [(''Position'', \<lparr>m_MaxEntities = 4, m_SparseSet = [0, 3, 3, 3],
                           m_DenseSet = [\<lparr>entity = 0, data = (1, 1)\<rparr>]\<rparr>)]\<rparr>
      :: (string, nat \<times> nat) ECSInstance) ''Position'' 0 =
     Inr (\<lparr>ecs_MaxEntities = 4, m_NextEntity = 0, m_FreeEntities = [],
           m_ComponentPools =
             [(''Position'', \<lparr>m_MaxEntities = 4, m_SparseSet = [3, 3, 3, 3],
                               m_DenseSet = []\<rparr>)]\<rparr>, True) \<and>
   HasComponent
     (\<lparr>ecs_MaxEntities = 4, m_NextEntity = 0, m_FreeEntities = [],
       m_ComponentPools =
         [(''Position'', \<lparr>m_MaxEntities = 4, m_SparseSet = [3, 3, 3, 3],
                           m_DenseSet = []\<rparr>)]\<rparr>
      :: (string, nat \<times> nat) ECSInstance) ''Position'' 0 = Inr False"
  (is "HasComponent ?r ''Position'' 0 = Inr False \<and>
       AddComponent ?r ''Position'' 0 (1, 1) = Inr (?r1, (1, 1)) \<and> _ \<and> _ \<and>
       RemoveComponent ?r1 ''Position'' 0 = Inr (?r2, True) \<and> _")
proof -
  have h1: "(0::nat) < ecs_MaxEntities ?r" by (simp add: ECSInstance_new_def)
  have h2: "HasComponent ?r ''Position'' 0 = Inr False"
    by (simp add: HasComponent_def TryGetPool_def ECSInstance_new_def)
  have h3: "length (m_DenseSet (snd (GetOrCreatePool ?r ''Position''))) \<noteq>
            sentinel (m_MaxEntities (snd (GetOrCreatePool ?r ''Position'')))"
    by (simp add: GetOrCreatePool_def ECSInstance_new_def SparseSet_new_def sentinel_def
        size_t_dec_def Let_def)
  from AddComponent_roundtrip [OF h1 h2 h3, of "(1, 1)"] obtain r1 r2 where
    a: "AddComponent ?r ''Position'' 0 (1, 1) = Inr (r1, (1, 1))"
    and g: "GetComponent r1 ''Position'' 0 = Inr (1, 1)"
    and h: "HasComponent r1 ''Position'' 0 = Inr True"
    and rc: "RemoveComponent r1 ''Position'' 0 = Inr (r2, True)"
    and gone: "HasComponent r2 ''Position'' 0 = Inr False" by blast
  have "AddComponent ?r ''Position'' 0 (1, 1) = Inr (?r1, (1, 1))"
    by (simp add: AddComponent_def GetOrCreatePool_def ECSInstance_new_def SparseSet_new_def
        Add_def Has_def sentinel_def size_t_dec_def Let_def numeral_eq_Suc)
  with a have r1: "r1 = ?r1" by simp
  have "RemoveComponent ?r1 ''Position'' 0 = Inr (?r2, True)"
    by (simp add: RemoveComponent_def TryGetPool_def Remove_def Has_def sentinel_def
        size_t_dec_def Let_def)
  with rc r1 have r2: "r2 = ?r2" by simp
  from h2 a g h rc gone r1 r2 show ?thesis by simp
qed

end
